theory Spec2Isabelle
  imports Complex_Main
begin

section \<open>Data model (utils.ts)\<close>

text \<open>
  JavaScript numbers are IEEE binary64 values.  Where a property does not depend on
  rounding (rectangles, parsing, placement, snapping of a single point, the closing
  square with its integer coordinates) the numbers are modelled as exact reals and every
  threshold of the code (0.01, 0.5, 1) is compared exactly.  Where it does depend on
  rounding (polygons with fewer than three points, the wall path that the sign search
  leaves unsolved) the functions are modelled a second time, under names ending in
  \<open>64\<close>, with every arithmetic operation rounded to binary64; see the sections on
  binary64 arithmetic.
  Optional fields and optional arguments are \<open>option\<close> values; \<open>None\<close> is
  JavaScript's \<open>undefined\<close>.
\<close>

record Point =
  px :: real
  py :: real

datatype ObjectType = Standard | Door

record ObjectDefinition =
  def_id :: string
  def_name :: string
  def_width :: real
  def_length :: real
  def_type :: "ObjectType option"

record PlacedObject =
  obj_id :: string
  definitionId :: string
  obj_x :: real
  obj_y :: real
  rotation :: real

record TempWall =
  wall_id :: string
  wall_start :: Point
  wall_end :: Point
  wall_color :: "string option"
  wall_isDashed :: "bool option"

record RoomLabel =
  label_id :: string
  label_text :: string
  label_x :: real
  label_y :: real
  label_fontSize :: real
  label_rotation :: "real option"

record Room =
  room_id :: string
  room_name :: string
  points :: "Point list"
  objects :: "PlacedObject list"
  tempWalls :: "TempWall list"
  labels :: "RoomLabel list option"

text \<open>The rectangles passed around in utils.ts are object literals \<open>{x, y, width, height}\<close>.\<close>

record Rect =
  rect_x :: real
  rect_y :: real
  rect_width :: real
  rect_height :: real

definition GRID_SIZE :: real where
  "GRID_SIZE = 1"

section \<open>Geometry kernel (utils.ts)\<close>

text \<open>
  \<open>calculatePolygonArea\<close>: the loop runs \<open>i = 0 .. length - 1\<close> with
  \<open>j = (i + 1) % length\<close>; both indices are in range whenever the body runs.
\<close>

definition areaStep :: "Point list \<Rightarrow> nat \<Rightarrow> real \<Rightarrow> real" where
  "areaStep pts i area =
     (let j = (i + 1) mod length pts
      in (area + px (pts ! i) * py (pts ! j)) - px (pts ! j) * py (pts ! i))"

definition calculatePolygonArea :: "Point list \<Rightarrow> real" where
  "calculatePolygonArea pts = \<bar>fold (areaStep pts) [0..<length pts] 0\<bar> / 2"

text \<open>
  \<open>isPointInPolygon\<close>: \<open>for (i = 0, j = length - 1; i < length; j = i++)\<close>.
  The loop state is the pair \<open>(j, inside)\<close>; after each pass \<open>j\<close> becomes the old
  \<open>i\<close>.  For the empty polygon the initial \<open>j\<close> is \<open>-1\<close> in the source, and is
  never read; the natural-number subtraction below gives 0 there and is never read either.
  The conjunction \<open>&&\<close> is evaluated left to right, so the division is only reached
  when \<open>yi \<noteq> yj\<close>.
\<close>

definition pipStep :: "Point \<Rightarrow> Point list \<Rightarrow> nat \<Rightarrow> nat \<times> bool \<Rightarrow> nat \<times> bool" where
  "pipStep point polygon i st =
     (let j = fst st; inside = snd st;
          xi = px (polygon ! i); yi = py (polygon ! i);
          xj = px (polygon ! j); yj = py (polygon ! j);
          intersect = (((yi > py point) \<noteq> (yj > py point))
                       \<and> (px point < (xj - xi) * (py point - yi) / (yj - yi) + xi))
      in (i, if intersect then \<not> inside else inside))"

definition isPointInPolygon :: "Point \<Rightarrow> Point list \<Rightarrow> bool" where
  "isPointInPolygon point polygon =
     snd (fold (pipStep point polygon) [0..<length polygon] (length polygon - 1, False))"

definition getObjectRect :: "PlacedObject \<Rightarrow> ObjectDefinition \<Rightarrow> Rect" where
  "getObjectRect obj d =
     (let isRotated = (rotation obj = 90 \<or> rotation obj = 270);
          w = (if isRotated then def_length d else def_width d);
          l = (if isRotated then def_width d else def_length d)
      in \<lparr>rect_x = obj_x obj - w / 2, rect_y = obj_y obj - l / 2,
          rect_width = w, rect_height = l\<rparr>)"

definition checkRectOverlap :: "Rect \<Rightarrow> Rect \<Rightarrow> bool" where
  "checkRectOverlap r1 r2 =
     (\<not> (rect_x r2 \<ge> rect_x r1 + rect_width r1 \<or>
         rect_x r2 + rect_width r2 \<le> rect_x r1 \<or>
         rect_y r2 \<ge> rect_y r1 + rect_height r1 \<or>
         rect_y r2 + rect_height r2 \<le> rect_y r1))"

definition isRectInPolygon :: "Rect \<Rightarrow> Point list \<Rightarrow> bool" where
  "isRectInPolygon rect polygon =
     (let corners =
        [\<lparr>px = rect_x rect, py = rect_y rect\<rparr>,
         \<lparr>px = rect_x rect + rect_width rect, py = rect_y rect\<rparr>,
         \<lparr>px = rect_x rect, py = rect_y rect + rect_height rect\<rparr>,
         \<lparr>px = rect_x rect + rect_width rect, py = rect_y rect + rect_height rect\<rparr>]
      in list_all (\<lambda>p. isPointInPolygon p polygon) corners)"

definition doLinesIntersect :: "Point \<Rightarrow> Point \<Rightarrow> Point \<Rightarrow> Point \<Rightarrow> bool" where
  "doLinesIntersect a b c d =
     (let det = (px b - px a) * (py d - py c) - (py b - py a) * (px d - px c)
      in if det = 0 then False
         else
           (let lambda = ((py d - py c) * (px d - px a) + (px c - px d) * (py d - py a)) / det;
                gamma = ((py a - py b) * (px d - px a) + (px b - px a) * (py d - py a)) / det
            in (0 < lambda \<and> lambda < 1) \<and> (0 < gamma \<and> gamma < 1)))"

definition lineIntersectRect :: "Point \<Rightarrow> Point \<Rightarrow> Rect \<Rightarrow> bool" where
  "lineIntersectRect p1 p2 rect =
     (let left = rect_x rect;
          right = rect_x rect + rect_width rect;
          top = rect_y rect;
          bottom = rect_y rect + rect_height rect
      in if px p1 \<ge> left \<and> px p1 \<le> right \<and> py p1 \<ge> top \<and> py p1 \<le> bottom then True
         else if px p2 \<ge> left \<and> px p2 \<le> right \<and> py p2 \<ge> top \<and> py p2 \<le> bottom then True
         else
           (let lines =
              [(\<lparr>px = left, py = top\<rparr>, \<lparr>px = right, py = top\<rparr>),
               (\<lparr>px = right, py = top\<rparr>, \<lparr>px = right, py = bottom\<rparr>),
               (\<lparr>px = right, py = bottom\<rparr>, \<lparr>px = left, py = bottom\<rparr>),
               (\<lparr>px = left, py = bottom\<rparr>, \<lparr>px = left, py = top\<rparr>)]
            in list_ex (\<lambda>l. doLinesIntersect p1 p2 (fst l) (snd l)) lines))"

definition getLineIntersection :: "Point \<Rightarrow> Point \<Rightarrow> Point \<Rightarrow> Point \<Rightarrow> Point option" where
  "getLineIntersection p1 p2 p3 p4 =
     (let det = (px p2 - px p1) * (py p4 - py p3) - (py p2 - py p1) * (px p4 - px p3)
      in if det = 0 then None
         else
           (let lambda = ((py p4 - py p3) * (px p4 - px p1) + (px p3 - px p4) * (py p4 - py p1)) / det;
                gamma = ((py p1 - py p2) * (px p4 - px p1) + (px p2 - px p1) * (py p4 - py p1)) / det
            in if 0 \<le> lambda \<and> lambda \<le> 1 \<and> 0 \<le> gamma \<and> gamma \<le> 1
               then Some \<lparr>px = px p1 + lambda * (px p2 - px p1),
                          py = py p1 + lambda * (py p2 - py p1)\<rparr>
               else None))"

section \<open>Feet-inches parsing (utils.ts)\<close>

text \<open>
  A JavaScript string is a sequence of UTF-16 code units; \<open>units\<close> turns a literal into
  its code units.  The apostrophe is 39, the double quote 34, the point 46.
\<close>

type_synonym codeunits = "nat list"

definition units :: "string \<Rightarrow> codeunits" where
  "units s = map of_char s"

text \<open>
  The regular-expression classes \<open>\d\<close> (the ten ASCII digits) and \<open>\s\<close> (white
  space and line terminators); the latter is also what \<open>parseFloat\<close> skips in front.
\<close>

definition isDigit :: "nat \<Rightarrow> bool" where
  "isDigit u = (48 \<le> u \<and> u \<le> 57)"

definition isWhiteSpace :: "nat \<Rightarrow> bool" where
  "isWhiteSpace u =
     (u \<in> set [9, 10, 11, 12, 13, 32, 160, 5760, 8232, 8233, 8239, 8287, 12288, 65279]
      \<or> (8192 \<le> u \<and> u \<le> 8202))"

text \<open>
  \<open>parseInt(m, 10)\<close> on a captured group: \<open>m\<close> is a non-empty run of digits, so the
  result is its decimal value.
\<close>

definition digitsValue :: "codeunits \<Rightarrow> nat" where
  "digitsValue ds = foldl (\<lambda>acc u. 10 * acc + (u - 48)) 0 ds"

text \<open>
  The numbers \<open>parseFeetInches\<close> can return; \<open>NaN\<close> and \<open>null\<close> are the
  \<open>None\<close> of the \<open>option\<close> results below.
\<close>

datatype Number = Num real | Infinity | NegInfinity

text \<open>
  \<open>/(\d+)'\s*(\d+)"/\<close> tried at the start of \<open>s\<close>; the result holds the two captured
  groups.  Each of \<open>\d+\<close> and \<open>\s*\<close> is followed by something outside its own
  class, so the greedy (longest) run is the only one that can lead to a match, and
  backtracking to a shorter run never succeeds.
\<close>

definition matchFeetInches :: "codeunits \<Rightarrow> (codeunits \<times> codeunits) option" where
  "matchFeetInches s =
     (let feet = takeWhile isDigit s; r1 = dropWhile isDigit s
      in if feet = [] then None
         else (case r1 of
                 [] \<Rightarrow> None
               | q # r2 \<Rightarrow>
                   if q \<noteq> 39 then None
                   else (let r3 = dropWhile isWhiteSpace r2;
                             inches = takeWhile isDigit r3; r4 = dropWhile isDigit r3
                         in if inches = [] then None
                            else (case r4 of
                                    [] \<Rightarrow> None
                                  | q' # r5 \<Rightarrow> if q' = 34 then Some (feet, inches) else None))))"

text \<open>\<open>/(\d+)'/\<close> tried at the start of \<open>s\<close>.\<close>

definition matchFeet :: "codeunits \<Rightarrow> codeunits option" where
  "matchFeet s =
     (let feet = takeWhile isDigit s; r1 = dropWhile isDigit s
      in if feet = [] then None
         else (case r1 of
                 [] \<Rightarrow> None
               | q # r2 \<Rightarrow> if q = 39 then Some feet else None))"

text \<open>
  \<open>str.match(regex)\<close> without the \<open>g\<close> flag: the match at the leftmost start
  position, \<open>None\<close> (\<open>null\<close>) when no position matches.
\<close>

fun firstMatch :: "(codeunits \<Rightarrow> 'a option) \<Rightarrow> codeunits \<Rightarrow> 'a option" where
  "firstMatch m [] = m []"
| "firstMatch m (c # cs) =
     (case m (c # cs) of Some r \<Rightarrow> Some r | None \<Rightarrow> firstMatch m cs)"

text \<open>
  \<open>parseFloat\<close> is a built-in of the JavaScript runtime, not code of this repository.
  The definitions follow ECMAScript: leading white space is skipped, then the longest
  prefix that is a \<open>StrDecimalLiteral\<close> is read (an optional sign, then
  \<open>Infinity\<close>, or digits with an optional fraction, or a fraction alone, each with an
  optional exponent); what follows the prefix is ignored, and the result is \<open>NaN\<close>
  when there is no such prefix.  \<open>exponentPart\<close> is the factor of an exponent part
  at the start of its argument, 1 when there is none.
\<close>

definition exponentPart :: "codeunits \<Rightarrow> real" where
  "exponentPart r =
     (case r of
        [] \<Rightarrow> 1
      | e # r1 \<Rightarrow>
          if e \<noteq> 101 \<and> e \<noteq> 69 then 1
          else (let negative = (case r1 of [] \<Rightarrow> False | sg # _ \<Rightarrow> sg = 45);
                    r2 = (case r1 of [] \<Rightarrow> [] | sg # r' \<Rightarrow> if sg = 43 \<or> sg = 45 then r' else r1);
                    ds = takeWhile isDigit r2
                in if ds = [] then 1
                   else if negative then 1 / 10 ^ digitsValue ds
                   else 10 ^ digitsValue ds))"

definition unsignedDecimal :: "codeunits \<Rightarrow> Number option" where
  "unsignedDecimal u =
     (if take 8 u = units ''Infinity'' then Some Infinity
      else (let ip = takeWhile isDigit u; r1 = dropWhile isDigit u
            in (case r1 of
                  [] \<Rightarrow> if ip = [] then None else Some (Num (real (digitsValue ip)))
                | d # r2 \<Rightarrow>
                    if d = 46
                    then (let fp = takeWhile isDigit r2; r3 = dropWhile isDigit r2
                          in if ip = [] \<and> fp = [] then None
                             else Some (Num ((real (digitsValue ip)
                                              + real (digitsValue fp) / 10 ^ length fp)
                                             * exponentPart r3)))
                    else if ip = [] then None
                    else Some (Num (real (digitsValue ip) * exponentPart r1)))))"

definition negate :: "Number \<Rightarrow> Number" where
  "negate n = (case n of Num v \<Rightarrow> Num (- v) | Infinity \<Rightarrow> NegInfinity | NegInfinity \<Rightarrow> Infinity)"

definition parseFloat :: "codeunits \<Rightarrow> Number option" where
  "parseFloat s =
     (let t = dropWhile isWhiteSpace s
      in (case t of
            [] \<Rightarrow> None
          | sg # r \<Rightarrow>
              if sg = 45 then map_option negate (unsignedDecimal r)
              else if sg = 43 then unsignedDecimal r
              else unsignedDecimal t))"

text \<open>
  \<open>parseFeetInches\<close>: the feet-inches form first, then bare feet, then
  \<open>parseFloat\<close>; \<open>null\<close> when that gives \<open>NaN\<close>.
\<close>

definition parseFeetInches :: "codeunits \<Rightarrow> Number option" where
  "parseFeetInches str =
     (case firstMatch matchFeetInches str of
        Some (feet, inches) \<Rightarrow> Some (Num (real (digitsValue feet) + real (digitsValue inches) / 12))
      | None \<Rightarrow>
          (case firstMatch matchFeet str of
             Some feet \<Rightarrow> Some (Num (real (digitsValue feet)))
           | None \<Rightarrow> parseFloat str))"

text \<open>
  Two properties of an input, used to say when \<open>parseFeetInches\<close> gives a value: some
  digit is immediately followed by an apostrophe; the input starts, after white space
  and an optional sign, with \<open>Infinity\<close>, a digit, or a point and a digit.
\<close>

definition digitBeforeQuote :: "codeunits \<Rightarrow> bool" where
  "digitBeforeQuote s = list_ex (\<lambda>(a, b). isDigit a \<and> b = 39) (zip s (tl s))"

definition startsNumeric :: "codeunits \<Rightarrow> bool" where
  "startsNumeric s =
     (let t = dropWhile isWhiteSpace s;
          u = (case t of [] \<Rightarrow> [] | sg # r \<Rightarrow> if sg = 43 \<or> sg = 45 then r else t)
      in take 8 u = units ''Infinity''
         \<or> (case u of
               [] \<Rightarrow> False
             | d # r \<Rightarrow> isDigit d \<or> (d = 46 \<and> (case r of [] \<Rightarrow> False | d' # _ \<Rightarrow> isDigit d'))))"

text \<open>
  A plain decimal string: an optional sign, digits, optionally a point and more digits,
  and nothing else.
\<close>

definition plainDecimal :: "codeunits \<Rightarrow> bool" where
  "plainDecimal s =
     (let u = (case s of [] \<Rightarrow> [] | sg # r \<Rightarrow> if sg = 43 \<or> sg = 45 then r else s);
          ip = takeWhile isDigit u; r = dropWhile isDigit u
      in ip \<noteq> []
         \<and> (case r of
               [] \<Rightarrow> True
             | d # fp \<Rightarrow> d = 46 \<and> fp \<noteq> [] \<and> list_all isDigit fp))"

section \<open>Placement validator (App component)\<close>

text \<open>
  \<open>objectLibrary\<close> is component state read by the closure; it is an explicit argument
  here.  \<open>objectLibrary.find(d => d.id === k)\<close> is the first definition with that id.
\<close>

definition findDef :: "ObjectDefinition list \<Rightarrow> string \<Rightarrow> ObjectDefinition option" where
  "findDef objectLibrary k = find (\<lambda>d. def_id d = k) objectLibrary"

text \<open>
  The first loop of \<open>isValidPlacement\<close>; the result says whether the loop left the
  function with \<open>return false\<close>.  \<open>continue\<close> is the recursive call on the rest.
\<close>

fun objectOverlapCheck ::
  "ObjectDefinition list \<Rightarrow> PlacedObject \<Rightarrow> string option \<Rightarrow> Rect \<Rightarrow> PlacedObject list \<Rightarrow> bool"
where
  "objectOverlapCheck objectLibrary obj excludeId rect [] = False"
| "objectOverlapCheck objectLibrary obj excludeId rect (other # rest) =
     (if Some (obj_id other) = excludeId \<or> obj_id other = obj_id obj
      then objectOverlapCheck objectLibrary obj excludeId rect rest
      else (case findDef objectLibrary (definitionId other) of
              None \<Rightarrow> objectOverlapCheck objectLibrary obj excludeId rect rest
            | Some otherDef \<Rightarrow>
                if checkRectOverlap rect (getObjectRect other otherDef) then True
                else objectOverlapCheck objectLibrary obj excludeId rect rest))"

fun wallOverlapCheck :: "Rect \<Rightarrow> TempWall list \<Rightarrow> bool" where
  "wallOverlapCheck rect [] = False"
| "wallOverlapCheck rect (wall # rest) =
     (if lineIntersectRect (wall_start wall) (wall_end wall) rect then True
      else wallOverlapCheck rect rest)"

definition isValidPlacement ::
  "ObjectDefinition list \<Rightarrow> PlacedObject \<Rightarrow> Room \<Rightarrow> string option \<Rightarrow> bool"
where
  "isValidPlacement objectLibrary obj room excludeId =
     (case findDef objectLibrary (definitionId obj) of
        None \<Rightarrow> False
      | Some d \<Rightarrow>
          (let rect = getObjectRect obj d
           in if objectOverlapCheck objectLibrary obj excludeId rect (objects room) then False
              else if wallOverlapCheck rect (tempWalls room) then False
              else True))"

text \<open>An object whose \<open>definitionId\<close> is found in the library.\<close>

definition resolves :: "ObjectDefinition list \<Rightarrow> PlacedObject \<Rightarrow> bool" where
  "resolves objectLibrary other = (findDef objectLibrary (definitionId other) \<noteq> None)"

section \<open>Snapping engine (App component)\<close>

definition snapToGrid :: "real \<Rightarrow> real" where
  "snapToGrid val = real_of_int (round (val / GRID_SIZE)) * GRID_SIZE"

text \<open>
  \<open>Math.round\<close> rounds halves towards plus infinity, as \<^const>\<open>round\<close> does
  (\<open>round x = \<lfloor>x + 1/2\<rfloor>\<close>).

  \<open>findSnapTarget\<close> reads the component's \<open>activeRoom\<close> (\<open>null\<close> when no room is
  active) and \<open>objectLibrary\<close>; both are explicit arguments.  The two \<open>forEach\<close>
  loops overwrite the local variables \<open>snappedX\<close> and \<open>snappedY\<close>; the loop state is
  that pair.
\<close>

definition threshold :: real where
  "threshold = 0.5"

definition wallSnapStep :: "real \<Rightarrow> real \<Rightarrow> Point list \<Rightarrow> nat \<Rightarrow> real \<times> real \<Rightarrow> real \<times> real" where
  "wallSnapStep x y pts i st =
     (let p1 = pts ! i;
          p2 = pts ! ((i + 1) mod length pts);
          snappedX = (if \<bar>px p1 - px p2\<bar> < 0.01 \<and> \<bar>x - px p1\<bar> < threshold
                      then px p1 else fst st);
          snappedY = (if \<bar>py p1 - py p2\<bar> < 0.01 \<and> \<bar>y - py p1\<bar> < threshold
                      then py p1 else snd st)
      in (snappedX, snappedY))"

definition edgeSnap :: "real \<Rightarrow> real \<Rightarrow> real \<Rightarrow> real" where
  "edgeSnap v e snapped = (if \<bar>v - e\<bar> < threshold then e else snapped)"

definition objectSnapStep ::
  "ObjectDefinition list \<Rightarrow> real \<Rightarrow> real \<Rightarrow> string option \<Rightarrow> PlacedObject \<Rightarrow> real \<times> real \<Rightarrow> real \<times> real"
where
  "objectSnapStep objectLibrary x y objId other st =
     (if Some (obj_id other) = objId then st
      else (case findDef objectLibrary (definitionId other) of
              None \<Rightarrow> st
            | Some otherDef \<Rightarrow>
                (let rect = getObjectRect other otherDef;
                     edgesX = [rect_x rect, rect_x rect + rect_width rect];
                     edgesY = [rect_y rect, rect_y rect + rect_height rect]
                 in (fold (edgeSnap x) edgesX (fst st), fold (edgeSnap y) edgesY (snd st)))))"

definition findSnapTarget ::
  "Room option \<Rightarrow> ObjectDefinition list \<Rightarrow> real \<Rightarrow> real \<Rightarrow> string option \<Rightarrow> Point"
where
  "findSnapTarget activeRoom objectLibrary x y objId =
     (case activeRoom of
        None \<Rightarrow> \<lparr>px = snapToGrid x, py = snapToGrid y\<rparr>
      | Some room \<Rightarrow>
          (let s0 = (snapToGrid x, snapToGrid y);
               s1 = fold (wallSnapStep x y (points room)) [0..<length (points room)] s0;
               s2 = fold (objectSnapStep objectLibrary x y objId) (objects room) s1
           in \<lparr>px = fst s2, py = snd s2\<rparr>))"

text \<open>
  A value is grid-aligned when it is an integer multiple of \<open>GRID_SIZE\<close>.
\<close>

definition onGrid :: "real \<Rightarrow> bool" where
  "onGrid v = (real_of_int \<lfloor>v / GRID_SIZE\<rfloor> * GRID_SIZE = v)"

text \<open>
  The snap features of a room are the x of every vertical boundary edge, the y of every
  horizontal one, and the four edge coordinates of the footprint of every object that
  \<open>findSnapTarget\<close> does not skip.  A feature is clear of a coordinate \<open>v\<close> when it is
  not strictly within the snapping threshold of \<open>v\<close>, or is \<open>v\<close> itself: then the
  override of \<open>findSnapTarget\<close> either does not fire or writes \<open>v\<close>.
  \<open>featuresClear\<close> says that every feature of the active room is clear of \<open>x\<close>
  (resp. \<open>y\<close>).
\<close>

definition wallFeaturesClear :: "real \<Rightarrow> real \<Rightarrow> Point list \<Rightarrow> bool" where
  "wallFeaturesClear x y pts =
     list_all (\<lambda>i. (\<bar>px (pts ! i) - px (pts ! ((i + 1) mod length pts))\<bar> < 0.01
                      \<and> \<bar>x - px (pts ! i)\<bar> < threshold \<longrightarrow> px (pts ! i) = x)
                 \<and> (\<bar>py (pts ! i) - py (pts ! ((i + 1) mod length pts))\<bar> < 0.01
                      \<and> \<bar>y - py (pts ! i)\<bar> < threshold \<longrightarrow> py (pts ! i) = y))
              [0..<length pts]"

definition edgeClear :: "real \<Rightarrow> real \<Rightarrow> bool" where
  "edgeClear v e = (\<bar>v - e\<bar> < threshold \<longrightarrow> e = v)"

definition objectFeaturesClear ::
  "ObjectDefinition list \<Rightarrow> string option \<Rightarrow> real \<Rightarrow> real \<Rightarrow> PlacedObject \<Rightarrow> bool"
where
  "objectFeaturesClear objectLibrary objId x y other =
     (if Some (obj_id other) = objId then True
      else (case findDef objectLibrary (definitionId other) of
              None \<Rightarrow> True
            | Some otherDef \<Rightarrow>
                (let rect = getObjectRect other otherDef
                 in edgeClear x (rect_x rect) \<and> edgeClear x (rect_x rect + rect_width rect)
                    \<and> edgeClear y (rect_y rect) \<and> edgeClear y (rect_y rect + rect_height rect))))"

definition featuresClear ::
  "Room option \<Rightarrow> ObjectDefinition list \<Rightarrow> string option \<Rightarrow> real \<Rightarrow> real \<Rightarrow> bool"
where
  "featuresClear activeRoom objectLibrary objId x y =
     (case activeRoom of
        None \<Rightarrow> True
      | Some room \<Rightarrow> wallFeaturesClear x y (points room)
                     \<and> list_all (objectFeaturesClear objectLibrary objId x y) (objects room))"

section \<open>Undo/redo history (App component)\<close>

text \<open>
  The three state cells \<open>rooms\<close>, \<open>history\<close> and \<open>historyIndex\<close>.  A snapshot is a
  \<open>Room[]\<close>; the history logic never looks inside one, so the snapshot type is a
  parameter.  \<open>rooms\<close> is \<open>None\<close> when an out-of-range read \<open>history[k]\<close> stored
  \<open>undefined\<close> in it.
\<close>

record 'a AppHistory =
  rooms :: "'a option"
  history :: "'a list"
  historyIndex :: int

text \<open>\<open>Array.prototype.slice(0, e)\<close>: a negative \<open>e\<close> counts from the end.\<close>

definition slice0 :: "'a list \<Rightarrow> int \<Rightarrow> 'a list" where
  "slice0 xs e = take (nat (if e < 0 then max (int (length xs) + e) 0 else e)) xs"

text \<open>\<open>xs[k]\<close>: \<open>undefined\<close> out of range.\<close>

definition index :: "'a list \<Rightarrow> int \<Rightarrow> 'a option" where
  "index xs k = (if 0 \<le> k \<and> k < int (length xs) then Some (xs ! nat k) else None)"

text \<open>
  \<open>addToHistory\<close> is a \<open>useCallback\<close> closure over \<open>historyIndex\<close>.  The updater
  of \<open>setHistory\<close> truncates with the index the closure captured,
  \<open>prev.slice(0, historyIndex + 1)\<close>, where \<open>prev\<close> is the live buffer; the updater
  of \<open>setHistoryIndex\<close> increments the live index, \<open>prev + 1\<close>.  The captured index
  is the \<open>historyIndex\<close> of the render that created the closure.  It is an explicit
  argument here: a handler of the current render passes the current index, a callback
  that outlives its render (the \<open>reader.onload\<close> of \<open>handleImportJSON\<close>) an older
  one.  \<open>setRooms\<close> closes over \<open>addToHistory\<close> and so over the same index.
\<close>

definition addToHistory :: "int \<Rightarrow> 'a \<Rightarrow> 'a AppHistory \<Rightarrow> 'a AppHistory" where
  "addToHistory capturedIndex newRooms s =
     (let nextHistory = slice0 (history s) (capturedIndex + 1) @ [newRooms];
          nextHistory' = (if length nextHistory > 50 then tl nextHistory else nextHistory);
          nextIndex = historyIndex s + 1
      in s\<lparr>history := nextHistory',
            historyIndex := (if nextIndex > 49 then 49 else nextIndex)\<rparr>)"

definition setRooms :: "int \<Rightarrow> 'a \<Rightarrow> bool \<Rightarrow> 'a AppHistory \<Rightarrow> 'a AppHistory" where
  "setRooms capturedIndex next saveToHistory s =
     (if saveToHistory then (addToHistory capturedIndex next s)\<lparr>rooms := Some next\<rparr>
      else s\<lparr>rooms := Some next\<rparr>)"

text \<open>
  \<open>undo\<close> and \<open>redo\<close> are plain functions, created anew by every render and
  attached to the buttons of that render: they read the current cells.
\<close>

definition undo :: "'a AppHistory \<Rightarrow> 'a AppHistory" where
  "undo s =
     (if historyIndex s > 0
      then (let prevIndex = historyIndex s - 1
            in s\<lparr>rooms := index (history s) prevIndex, historyIndex := prevIndex\<rparr>)
      else s)"

definition redo :: "'a AppHistory \<Rightarrow> 'a AppHistory" where
  "redo s =
     (if historyIndex s < int (length (history s)) - 1
      then (let nextIndex = historyIndex s + 1
            in s\<lparr>rooms := index (history s) nextIndex, historyIndex := nextIndex\<rparr>)
      else s)"

text \<open>
  Before the mount effect has run the cells hold their \<open>useState\<close> defaults: the
  empty room list, an empty history and the index \<open>-1\<close>.
\<close>

definition beforeMount :: "'a \<Rightarrow> 'a AppHistory" where
  "beforeMount noRooms = \<lparr>rooms = Some noRooms, history = [], historyIndex = - 1\<rparr>"

text \<open>
  The state the mount effect installs: \<open>setRoomsState(initialRooms);
  setHistory([initialRooms]); setHistoryIndex(0)\<close>.
\<close>

definition initHistory :: "'a \<Rightarrow> 'a AppHistory" where
  "initHistory initialRooms = \<lparr>rooms = Some initialRooms, history = [initialRooms], historyIndex = 0\<rparr>"

text \<open>
  The states of the component.  \<open>reachable seen s\<close>: the component can be in state
  \<open>s\<close>, and \<open>seen\<close> lists the values \<open>historyIndex\<close> has had in the renders so
  far, newest first; these are the indices a closure may have captured.  The first
  render shows the defaults, the mount effect installs the initial history, and from
  then on \<open>setRooms\<close> runs with any index captured so far (with or without a history
  entry), \<open>undo\<close> and \<open>redo\<close> with the current cells.
\<close>

inductive reachable :: "int list \<Rightarrow> 'a AppHistory \<Rightarrow> bool" where
  r_first: "reachable [- 1] (beforeMount noRooms)"
| r_mount: "reachable [0, - 1] (initHistory initialRooms)"
| r_set: "reachable seen s \<Longrightarrow> capturedIndex \<in> set seen \<Longrightarrow>
          reachable (historyIndex (setRooms capturedIndex next save s) # seen)
                    (setRooms capturedIndex next save s)"
| r_undo: "reachable seen s \<Longrightarrow> reachable (historyIndex (undo s) # seen) (undo s)"
| r_redo: "reachable seen s \<Longrightarrow> reachable (historyIndex (redo s) # seen) (redo s)"

text \<open>
  The states reached from the initialised history when every \<open>setRooms\<close> is called by
  a handler of the current render, so that the captured index is the current one.
\<close>

inductive inSync :: "'a AppHistory \<Rightarrow> bool" where
  s_mount: "inSync (initHistory initialRooms)"
| s_set: "inSync s \<Longrightarrow> inSync (setRooms (historyIndex s) next save s)"
| s_undo: "inSync s \<Longrightarrow> inSync (undo s)"
| s_redo: "inSync s \<Longrightarrow> inSync (redo s)"

text \<open>
  The cap of the buffer, and the contract of the buffer: at most 50 snapshots, and the
  cursor on one of them.
\<close>

definition historyCap :: "'a AppHistory \<Rightarrow> bool" where
  "historyCap s = (length (history s) \<le> 50 \<and> - 1 \<le> historyIndex s \<and> historyIndex s \<le> 49)"

definition historyInv :: "'a AppHistory \<Rightarrow> bool" where
  "historyInv s = (length (history s) \<le> 50 \<and> 0 \<le> historyIndex s
     \<and> historyIndex s \<le> int (length (history s)) - 1)"

section \<open>Wall segment solver (handleBulkWallInput)\<close>

datatype Orientation = H | V

record Segment =
  seg_length :: real
  orientation :: Orientation

unbundle bit_operations_syntax

text \<open>
  \<open>solveDirections\<close>.  The outer loop tries the masks \<open>i = 0, 1, ...\<close> below
  \<open>1 << n\<close>; it is only reached for \<open>n \<le> 12\<close>, where the 32-bit shift is
  \<open>2 ^ n\<close>.  Bit \<open>j\<close> of the mask gives segment \<open>j\<close> the direction 1, a clear bit
  gives -1.
\<close>

definition dir :: "nat \<Rightarrow> nat \<Rightarrow> real" where
  "dir i j = (if i AND push_bit j 1 \<noteq> 0 then 1 else -1)"

definition dirs :: "nat \<Rightarrow> nat \<Rightarrow> real list" where
  "dirs n i = map (dir i) [0..<n]"

definition signedSum :: "Segment list \<Rightarrow> nat \<Rightarrow> real" where
  "signedSum segs i =
     fold (\<lambda>j sum. sum + seg_length (segs ! j) * dir i j) [0..<length segs] 0"

function searchFrom :: "Segment list \<Rightarrow> nat \<Rightarrow> real list" where
  "searchFrom segs i =
     (if i < 2 ^ length segs
      then (if \<bar>signedSum segs i\<bar> < 0.01
            then map (\<lambda>idx. seg_length (segs ! idx) * (dirs (length segs) i ! idx))
                     [0..<length segs]
            else searchFrom segs (i + 1))
      else map seg_length segs)"
  by pat_completeness auto
termination
  by (relation "measure (\<lambda>(segs, i). 2 ^ length segs - i)") auto

declare searchFrom.simps [simp del]

definition solveDirections :: "Segment list \<Rightarrow> real list" where
  "solveDirections segs =
     (if length segs > 12 then map seg_length segs else searchFrom segs 0)"

text \<open>
  The search finds nothing: it is skipped (more than 12 segments), or none of the
  \<open>2 ^ n\<close> masks gives a signed sum within 0.01 of zero.
\<close>

definition searchFails :: "Segment list \<Rightarrow> bool" where
  "searchFails segs =
     (length segs > 12
      \<or> list_all (\<lambda>i. \<not> \<bar>signedSum segs i\<bar> < 0.01) [0..<2 ^ length segs])"

text \<open>
  The walk over the segments in input order.  \<open>hLengths[hIdx++]\<close> reads the signed
  lengths of the H segments one after the other, so the two index counters are modelled
  by the not yet consumed suffixes of \<open>hLengths\<close> and \<open>vLengths\<close>.  A read past the
  end would be \<open>undefined\<close> in the source; it is \<open>None\<close> here.  The result lists the
  points pushed after the start point.
\<close>

fun walkSegments :: "Point \<Rightarrow> Segment list \<Rightarrow> real list \<Rightarrow> real list \<Rightarrow> Point list option" where
  "walkSegments current [] hLengths vLengths = Some []"
| "walkSegments current (seg # rest) hLengths vLengths =
     (if orientation seg = H
      then (case hLengths of
              [] \<Rightarrow> None
            | len # hLengths' \<Rightarrow>
                (let next = \<lparr>px = px current + len, py = py current\<rparr>
                 in map_option (\<lambda>ps. next # ps) (walkSegments next rest hLengths' vLengths)))
      else (case vLengths of
              [] \<Rightarrow> None
            | len # vLengths' \<Rightarrow>
                (let next = \<lparr>px = px current, py = py current + len\<rparr>
                 in map_option (\<lambda>ps. next # ps) (walkSegments next rest hLengths vLengths'))))"

text \<open>
  The unnormalised path: the grid-snapped mouse position, then one point per segment.
\<close>

definition bulkPath :: "Point \<Rightarrow> Segment list \<Rightarrow> Point list option" where
  "bulkPath mousePos segments =
     (let current = \<lparr>px = snapToGrid (px mousePos), py = snapToGrid (py mousePos)\<rparr>;
          hSegments = filter (\<lambda>s. orientation s = H) segments;
          vSegments = filter (\<lambda>s. orientation s = V) segments;
          hLengths = solveDirections hSegments;
          vLengths = solveDirections vSegments
      in map_option (\<lambda>ps. current # ps) (walkSegments current segments hLengths vLengths))"

text \<open>
  Normalisation shifts the bounding box's minimum corner to (10, 10) and snaps every
  point to the grid.  \<open>points\<close> always holds the start point, so \<open>Math.min\<close> has at
  least one argument.
\<close>

definition normalizePoints :: "Point list \<Rightarrow> Point list" where
  "normalizePoints pts =
     (let minX = min_list (map px pts);
          minY = min_list (map py pts);
          offsetX = 10 - minX;
          offsetY = 10 - minY
      in map (\<lambda>p. \<lparr>px = snapToGrid (px p + offsetX), py = snapToGrid (py p + offsetY)\<rparr>) pts)"

definition distToStart :: "Point list \<Rightarrow> real" where
  "distToStart normalizedPoints =
     sqrt ((px (normalizedPoints ! (length normalizedPoints - 1)) - px (normalizedPoints ! 0))\<^sup>2
         + (py (normalizedPoints ! (length normalizedPoints - 1)) - py (normalizedPoints ! 0))\<^sup>2)"

text \<open>
  What \<open>handleBulkWallInput\<close> hands to \<open>setRooms\<close>, from the parsed \<open>segments\<close>
  on: nothing for an empty input; a new room with the given boundary points (and no
  objects or walls) when the path closes; otherwise the new temporary walls, as
  (start, end) pairs, which are appended to the active room or put into a new room
  without boundary points.  The random ids and the room name are not modelled.
  \<open>UndefinedLength\<close> stands for a read past the end of \<open>hLengths\<close> or
  \<open>vLengths\<close>.
\<close>

datatype BulkOutput =
    NoOp
  | NewRoom "Point list"
  | NewWalls "(Point \<times> Point) list"
  | UndefinedLength

definition handleBulkWallInput :: "Point \<Rightarrow> Segment list \<Rightarrow> BulkOutput" where
  "handleBulkWallInput mousePos segments =
     (if length segments = 0 then NoOp
      else (case bulkPath mousePos segments of
              None \<Rightarrow> UndefinedLength
            | Some pts \<Rightarrow>
                (let normalizedPoints = normalizePoints pts
                 in if distToStart normalizedPoints < 1
                    then NewRoom (butlast normalizedPoints)
                    else NewWalls (map (\<lambda>i. (normalizedPoints ! (i - 1), normalizedPoints ! i))
                                       [1..<length normalizedPoints]))))"

section \<open>Binary64 arithmetic\<close>

text \<open>
  A binary64 number is \<open>m * 2 ^ k\<close> with an integer significand \<open>\<bar>m\<bar> < 2 ^ 53\<close>.
  \<open>fl\<close> rounds a real to the nearest such number, ties to the even significand, as
  every arithmetic operation of JavaScript does with its exact result:
  \<open>ulpExp x\<close> is the exponent of the unit in the last place of \<open>x\<close>, and
  \<open>roundEven\<close> rounds the scaled value to an integer.  The exponent is unbounded
  here: overflow to infinity, subnormal numbers and NaN are not modelled, so the model
  is the code's arithmetic for magnitudes between 2^-1022 and 2^1023.
\<close>

definition roundEven :: "real \<Rightarrow> int" where
  "roundEven r =
     (let n = \<lfloor>r + 1/2\<rfloor>
      in if real_of_int n = r + 1/2 \<and> odd n then n - 1 else n)"

definition ulpExp :: "real \<Rightarrow> int" where
  "ulpExp x = \<lfloor>log 2 \<bar>x\<bar>\<rfloor> - 52"

definition fl :: "real \<Rightarrow> real" where
  "fl x = (if x = 0 then 0
           else real_of_int (roundEven (x / 2 powi ulpExp x)) * 2 powi ulpExp x)"

definition isDouble :: "real \<Rightarrow> bool" where
  "isDouble g = (\<exists>m k. \<bar>m\<bar> < 2 ^ 53 \<and> g = real_of_int m * 2 powi k)"

text \<open>The four operations \<open>+\<close>, \<open>-\<close>, \<open>*\<close>, \<open>/\<close> on numbers.\<close>

definition fadd :: "real \<Rightarrow> real \<Rightarrow> real" where "fadd a b = fl (a + b)"
definition fsub :: "real \<Rightarrow> real \<Rightarrow> real" where "fsub a b = fl (a - b)"
definition fmul :: "real \<Rightarrow> real \<Rightarrow> real" where "fmul a b = fl (a * b)"
definition fdiv :: "real \<Rightarrow> real \<Rightarrow> real" where "fdiv a b = fl (a / b)"

section \<open>Geometry kernel in binary64 (utils.ts)\<close>

text \<open>
  \<open>calculatePolygonArea\<close> and \<open>isPointInPolygon\<close> once more, operation by
  operation: \<open>area += a * b\<close> is a rounded product and a rounded sum,
  \<open>area -= c * d\<close> a rounded product and a rounded difference; the abscissa
  \<open>(xj - xi) * (point.y - yi) / (yj - yi) + xi\<close> is two rounded differences, a
  rounded product, a rounded quotient and a rounded sum.  Comparisons are exact.
\<close>

definition areaStep64 :: "Point list \<Rightarrow> nat \<Rightarrow> real \<Rightarrow> real" where
  "areaStep64 pts i area =
     (let j = (i + 1) mod length pts
      in fsub (fadd area (fmul (px (pts ! i)) (py (pts ! j))))
              (fmul (px (pts ! j)) (py (pts ! i))))"

definition calculatePolygonArea64 :: "Point list \<Rightarrow> real" where
  "calculatePolygonArea64 pts = fdiv \<bar>fold (areaStep64 pts) [0..<length pts] 0\<bar> 2"

definition abscissa64 :: "Point \<Rightarrow> Point \<Rightarrow> Point \<Rightarrow> real" where
  "abscissa64 point p q =
     fadd (fdiv (fmul (fsub (px q) (px p)) (fsub (py point) (py p)))
                (fsub (py q) (py p)))
          (px p)"

definition pipStep64 :: "Point \<Rightarrow> Point list \<Rightarrow> nat \<Rightarrow> nat \<times> bool \<Rightarrow> nat \<times> bool" where
  "pipStep64 point polygon i st =
     (let j = fst st; inside = snd st;
          yi = py (polygon ! i); yj = py (polygon ! j);
          intersect = (((yi > py point) \<noteq> (yj > py point))
                       \<and> (px point < abscissa64 point (polygon ! i) (polygon ! j)))
      in (i, if intersect then \<not> inside else inside))"

definition isPointInPolygon64 :: "Point \<Rightarrow> Point list \<Rightarrow> bool" where
  "isPointInPolygon64 point polygon =
     snd (fold (pipStep64 point polygon) [0..<length polygon] (length polygon - 1, False))"

text \<open>
  A one-point polygon whose product \<open>x * y\<close> stays in the binary64 range (beyond it
  the code's product is infinite and the area is NaN).
\<close>

definition inRange :: "Point \<Rightarrow> bool" where
  "inRange p = (\<bar>px p * py p\<bar> \<le> 2 ^ 1023)"

text \<open>
  A point on the 1-ft grid, at most 2^25 ft from the origin along each axis.
\<close>

definition smallGridPoint :: "Point \<Rightarrow> bool" where
  "smallGridPoint p = (onGrid (px p) \<and> \<bar>px p\<bar> \<le> 2 ^ 25 \<and> onGrid (py p) \<and> \<bar>py p\<bar> \<le> 2 ^ 25)"

section \<open>Wall segment solver in binary64 (handleBulkWallInput)\<close>

text \<open>
  The solver once more, with every sum, difference and product rounded.
  \<open>Math.round\<close> is exact (its result is an integer that binary64 holds whenever the
  argument is a binary64 number), \<open>Math.min\<close> is exact, \<open>Math.pow(d, 2)\<close> is
  taken as the rounded square and \<open>Math.sqrt\<close> is the rounded square root.  The literal \<open>0.01\<close> is
  the binary64 number nearest to 1/100; 0.5, 1 and 10 are binary64 numbers.  The
  segments are the parsed ones; each length \<open>feet + inches / 12\<close> is a binary64
  number.
\<close>

definition snapToGrid64 :: "real \<Rightarrow> real" where
  "snapToGrid64 val = fmul (real_of_int (round (fdiv val GRID_SIZE))) GRID_SIZE"

definition signedSum64 :: "Segment list \<Rightarrow> nat \<Rightarrow> real" where
  "signedSum64 segs i =
     fold (\<lambda>j sum. fadd sum (fmul (seg_length (segs ! j)) (dir i j))) [0..<length segs] 0"

function searchFrom64 :: "Segment list \<Rightarrow> nat \<Rightarrow> real list" where
  "searchFrom64 segs i =
     (if i < 2 ^ length segs
      then (if \<bar>signedSum64 segs i\<bar> < fl (1 / 100)
            then map (\<lambda>idx. fmul (seg_length (segs ! idx)) (dirs (length segs) i ! idx))
                     [0..<length segs]
            else searchFrom64 segs (i + 1))
      else map seg_length segs)"
  by pat_completeness auto
termination
  by (relation "measure (\<lambda>(segs, i). 2 ^ length segs - i)") auto

declare searchFrom64.simps [simp del]

definition solveDirections64 :: "Segment list \<Rightarrow> real list" where
  "solveDirections64 segs =
     (if length segs > 12 then map seg_length segs else searchFrom64 segs 0)"

definition searchFails64 :: "Segment list \<Rightarrow> bool" where
  "searchFails64 segs =
     (length segs > 12
      \<or> list_all (\<lambda>i. \<not> \<bar>signedSum64 segs i\<bar> < fl (1 / 100)) [0..<2 ^ length segs])"

fun walkSegments64 :: "Point \<Rightarrow> Segment list \<Rightarrow> real list \<Rightarrow> real list \<Rightarrow> Point list option" where
  "walkSegments64 current [] hLengths vLengths = Some []"
| "walkSegments64 current (seg # rest) hLengths vLengths =
     (if orientation seg = H
      then (case hLengths of
              [] \<Rightarrow> None
            | len # hLengths' \<Rightarrow>
                (let next = \<lparr>px = fadd (px current) len, py = py current\<rparr>
                 in map_option (\<lambda>ps. next # ps) (walkSegments64 next rest hLengths' vLengths)))
      else (case vLengths of
              [] \<Rightarrow> None
            | len # vLengths' \<Rightarrow>
                (let next = \<lparr>px = px current, py = fadd (py current) len\<rparr>
                 in map_option (\<lambda>ps. next # ps) (walkSegments64 next rest hLengths vLengths'))))"

definition bulkPath64 :: "Point \<Rightarrow> Segment list \<Rightarrow> Point list option" where
  "bulkPath64 mousePos segments =
     (let current = \<lparr>px = snapToGrid64 (px mousePos), py = snapToGrid64 (py mousePos)\<rparr>;
          hSegments = filter (\<lambda>s. orientation s = H) segments;
          vSegments = filter (\<lambda>s. orientation s = V) segments;
          hLengths = solveDirections64 hSegments;
          vLengths = solveDirections64 vSegments
      in map_option (\<lambda>ps. current # ps) (walkSegments64 current segments hLengths vLengths))"

definition normalizePoints64 :: "Point list \<Rightarrow> Point list" where
  "normalizePoints64 pts =
     (let minX = min_list (map px pts);
          minY = min_list (map py pts);
          offsetX = fsub 10 minX;
          offsetY = fsub 10 minY
      in map (\<lambda>p. \<lparr>px = snapToGrid64 (fadd (px p) offsetX),
                     py = snapToGrid64 (fadd (py p) offsetY)\<rparr>) pts)"

definition distToStart64 :: "Point list \<Rightarrow> real" where
  "distToStart64 normalizedPoints =
     fl (sqrt (fadd
       (fl ((fsub (px (normalizedPoints ! (length normalizedPoints - 1))) (px (normalizedPoints ! 0)))\<^sup>2))
       (fl ((fsub (py (normalizedPoints ! (length normalizedPoints - 1))) (py (normalizedPoints ! 0)))\<^sup>2))))"

definition handleBulkWallInput64 :: "Point \<Rightarrow> Segment list \<Rightarrow> BulkOutput" where
  "handleBulkWallInput64 mousePos segments =
     (if length segments = 0 then NoOp
      else (case bulkPath64 mousePos segments of
              None \<Rightarrow> UndefinedLength
            | Some pts \<Rightarrow>
                (let normalizedPoints = normalizePoints64 pts
                 in if distToStart64 normalizedPoints < 1
                    then NewRoom (butlast normalizedPoints)
                    else NewWalls (map (\<lambda>i. (normalizedPoints ! (i - 1), normalizedPoints ! i))
                                       [1..<length normalizedPoints]))))"

text \<open>
  An unsolved subsequence moves the end of the path at least half a foot, whatever the
  rounding of the walk does: it holds a segment of at least 0.5 ft, or its lengths add
  up to at least 0.5 ft plus a margin of 2^-20 ft for each rounded addition.
\<close>

definition roundingMargin :: real where
  "roundingMargin = 1 / 2 ^ 20"

definition longEnough :: "Segment list \<Rightarrow> bool" where
  "longEnough segs =
     (list_ex (\<lambda>s. 1/2 \<le> seg_length s) segs
      \<or> 1/2 + real (length segs) * roundingMargin \<le> sum_list (map seg_length segs))"

section \<open>Properties of the geometry kernel\<close>

text \<open>
  Claim C10.  \<open>checkRectOverlap\<close> is symmetric: for all rectangles \<open>r1\<close> and \<open>r2\<close>,
  \<open>checkRectOverlap r1 r2\<close> and \<open>checkRectOverlap r2 r1\<close> are equal.
\<close>

theorem checkRectOverlap_symmetric:
  "checkRectOverlap r1 r2 = checkRectOverlap r2 r1"
  by (auto simp: checkRectOverlap_def)

text \<open>
  Claim C6.  \<open>checkRectOverlap\<close> compares strictly at the boundaries: it holds exactly
  when each rectangle starts strictly before the other one ends, on both axes.  So two
  rectangles that touch along an edge do not overlap, and two rectangles whose
  intersection has positive width and height do.  \<open>{x:0,y:0,w:1,h:1}\<close> and
  \<open>{x:1,y:0,w:1,h:1}\<close> do not overlap; \<open>{x:0,y:0,w:2,h:2}\<close> and
  \<open>{x:1,y:1,w:2,h:2}\<close> do.
\<close>

theorem checkRectOverlap_strict:
  "(checkRectOverlap r1 r2 \<longleftrightarrow>
      (rect_x r2 < rect_x r1 + rect_width r1 \<and> rect_x r1 < rect_x r2 + rect_width r2 \<and>
       rect_y r2 < rect_y r1 + rect_height r1 \<and> rect_y r1 < rect_y r2 + rect_height r2))
   \<and> ((rect_x r2 = rect_x r1 + rect_width r1 \<or> rect_x r2 + rect_width r2 = rect_x r1 \<or>
        rect_y r2 = rect_y r1 + rect_height r1 \<or> rect_y r2 + rect_height r2 = rect_y r1)
        \<longrightarrow> \<not> checkRectOverlap r1 r2)
   \<and> ((max (rect_x r1) (rect_x r2) < min (rect_x r1 + rect_width r1) (rect_x r2 + rect_width r2) \<and>
        max (rect_y r1) (rect_y r2) < min (rect_y r1 + rect_height r1) (rect_y r2 + rect_height r2))
        \<longrightarrow> checkRectOverlap r1 r2)
   \<and> \<not> checkRectOverlap \<lparr>rect_x = 0, rect_y = 0, rect_width = 1, rect_height = 1\<rparr>
                          \<lparr>rect_x = 1, rect_y = 0, rect_width = 1, rect_height = 1\<rparr>
   \<and> checkRectOverlap \<lparr>rect_x = 0, rect_y = 0, rect_width = 2, rect_height = 2\<rparr>
                        \<lparr>rect_x = 1, rect_y = 1, rect_width = 2, rect_height = 2\<rparr>"
  by (auto simp: checkRectOverlap_def)

theorem checkRectOverlap_strict_witness:
  "(rect_x \<lparr>rect_x = 3, rect_y = 0, rect_width = 1, rect_height = 1\<rparr>
      = rect_x \<lparr>rect_x = 1, rect_y = 0, rect_width = 2, rect_height = 1\<rparr>
        + rect_width \<lparr>rect_x = 1, rect_y = 0, rect_width = 2, rect_height = 1\<rparr>)
   \<and> \<not> checkRectOverlap \<lparr>rect_x = 1, rect_y = 0, rect_width = 2, rect_height = 1\<rparr>
                          \<lparr>rect_x = 3, rect_y = 0, rect_width = 1, rect_height = 1\<rparr>
   \<and> max (0::real) 1 < min (0 + 2) (1 + 2)
   \<and> checkRectOverlap \<lparr>rect_x = 0, rect_y = 0, rect_width = 2, rect_height = 2\<rparr>
                        \<lparr>rect_x = 1, rect_y = 1, rect_width = 2, rect_height = 2\<rparr>"
  using checkRectOverlap_strict
          [of "\<lparr>rect_x = 1, rect_y = 0, rect_width = 2, rect_height = 1\<rparr>"
              "\<lparr>rect_x = 3, rect_y = 0, rect_width = 1, rect_height = 1\<rparr>"]
        checkRectOverlap_strict
          [of "\<lparr>rect_x = 0, rect_y = 0, rect_width = 2, rect_height = 2\<rparr>"
              "\<lparr>rect_x = 1, rect_y = 1, rect_width = 2, rect_height = 2\<rparr>"]
  by simp

section \<open>Properties of the feet-inches parser\<close>

lemma not_digit_quotes [simp]: "\<not> isDigit 39" "\<not> isDigit 34" "\<not> isDigit 46"
  "\<not> isWhiteSpace 34" "\<not> isWhiteSpace 39"
  by (simp_all add: isDigit_def isWhiteSpace_def)

lemma digit_not_space: "isDigit d \<Longrightarrow> \<not> isWhiteSpace d"
  by (auto simp: isDigit_def isWhiteSpace_def)

lemma takeWhile_run:
  "list_all P ds \<Longrightarrow> \<not> P c \<Longrightarrow> takeWhile P (ds @ c # rest) = ds"
  by (induction ds) auto

lemma dropWhile_run:
  "list_all P ds \<Longrightarrow> \<not> P c \<Longrightarrow> dropWhile P (ds @ c # rest) = c # rest"
  by (induction ds) auto

lemma dropWhile_spaces:
  "list_all P ws \<Longrightarrow> dropWhile P (ws @ rest) = dropWhile P rest"
  by (induction ws) auto

lemma matchFeetInches_form:
  assumes "list_all isDigit F" "F \<noteq> []" "list_all isWhiteSpace ws" "list_all isDigit I" "I \<noteq> []"
  shows "matchFeetInches (F @ 39 # ws @ I @ 34 # post) = Some (F, I)"
proof -
  have 1: "takeWhile isDigit (F @ 39 # ws @ I @ 34 # post) = F"
    and 2: "dropWhile isDigit (F @ 39 # ws @ I @ 34 # post) = 39 # ws @ I @ 34 # post"
    using assms(1) by (simp_all add: takeWhile_run dropWhile_run)
  obtain i I' where I: "I = i # I'" using assms(5) by (cases I) auto
  then have di: "isDigit i" using assms(4) by simp
  have 3: "dropWhile isWhiteSpace (ws @ I @ 34 # post) = I @ 34 # post"
    using assms(3) I di by (simp add: dropWhile_spaces digit_not_space)
  have 4: "takeWhile isDigit (I @ 34 # post) = I" "dropWhile isDigit (I @ 34 # post) = 34 # post"
    using assms(4) by (simp_all add: takeWhile_run dropWhile_run)
  show ?thesis
    unfolding matchFeetInches_def Let_def 1 2 using assms(2,5) by (simp add: 3 4)
qed

lemma matchFeet_form:
  assumes "list_all isDigit F" "F \<noteq> []"
  shows "matchFeet (F @ 39 # post) = Some F"
  unfolding matchFeet_def Let_def using assms by (simp add: takeWhile_run dropWhile_run)

lemma no_match_before:
  assumes "39 \<notin> set p" "p \<noteq> []" "\<not> isDigit (last p)"
  shows "matchFeet (p @ t) = None" and "matchFeetInches (p @ t) = None"
proof -
  have "\<exists>x\<in>set p. \<not> isDigit x" using assms(2,3) last_in_set by blast
  then obtain x where x: "x \<in> set p" "\<not> isDigit x" by blast
  have tw: "takeWhile isDigit (p @ t) = takeWhile isDigit p"
    and dw: "dropWhile isDigit (p @ t) = dropWhile isDigit p @ t"
    using x by (simp_all add: takeWhile_append1 dropWhile_append1)
  have "dropWhile isDigit p \<noteq> []" using x by (simp add: dropWhile_eq_Nil_conv) blast
  then obtain c r where cr: "dropWhile isDigit p = c # r" by (cases "dropWhile isDigit p") auto
  then have "c \<in> set p" by (metis list.set_intros(1) set_dropWhileD)
  then have "c \<noteq> 39" using assms(1) by auto
  then show "matchFeet (p @ t) = None" and "matchFeetInches (p @ t) = None"
    unfolding matchFeet_def matchFeetInches_def Let_def tw dw cr by simp_all
qed

lemma firstMatch_skip:
  assumes "\<And>k. k < length p \<Longrightarrow> m (drop k p @ t) = None"
  shows "firstMatch m (p @ t) = firstMatch m t"
  using assms
proof (induction p)
  case Nil
  show ?case by simp
next
  case (Cons c p)
  have "m ((c # p) @ t) = None" using Cons.prems [of 0] by simp
  moreover have "firstMatch m (p @ t) = firstMatch m t"
  proof (rule Cons.IH)
    fix k assume "k < length p"
    then show "m (drop k p @ t) = None" using Cons.prems [of "Suc k"] by simp
  qed
  ultimately show ?case by simp
qed

lemma firstMatch_here: "m t = Some r \<Longrightarrow> firstMatch m t = Some r"
  by (cases t) simp_all

lemma firstMatch_after_prefix:
  assumes "39 \<notin> set pre" "pre = [] \<or> \<not> isDigit (last pre)"
  shows "firstMatch matchFeet (pre @ t) = firstMatch matchFeet t"
    and "firstMatch matchFeetInches (pre @ t) = firstMatch matchFeetInches t"
proof -
  have suffix: "39 \<notin> set (drop k pre) \<and> drop k pre \<noteq> [] \<and> \<not> isDigit (last (drop k pre))"
    if "k < length pre" for k
  proof -
    have "pre \<noteq> []" using that by auto
    then have "\<not> isDigit (last pre)" using assms(2) by simp
    moreover have "set (drop k pre) \<subseteq> set pre" by (rule set_drop_subset)
    ultimately show ?thesis using that assms(1) by auto
  qed
  show "firstMatch matchFeet (pre @ t) = firstMatch matchFeet t"
    by (rule firstMatch_skip) (use suffix no_match_before(1) in blast)
  show "firstMatch matchFeetInches (pre @ t) = firstMatch matchFeetInches t"
    by (rule firstMatch_skip) (use suffix no_match_before(2) in blast)
qed

lemma matchFeetInches_needs_dquote: "matchFeetInches t = Some r \<Longrightarrow> 34 \<in> set t"
proof -
  assume a: "matchFeetInches t = Some r"
  let ?r1 = "dropWhile isDigit t"
  from a obtain r2 where r1: "?r1 = 39 # r2"
    unfolding matchFeetInches_def Let_def by (auto split: if_splits list.splits)
  let ?r4 = "dropWhile isDigit (dropWhile isWhiteSpace r2)"
  from a r1 obtain r5 where r4: "?r4 = 34 # r5"
    unfolding matchFeetInches_def Let_def by (auto split: if_splits list.splits)
  have "34 \<in> set ?r4" using r4 by simp
  then have "34 \<in> set r2" by (meson set_dropWhileD)
  then have "34 \<in> set ?r1" using r1 by simp
  then show ?thesis by (meson set_dropWhileD)
qed

lemma matchFeet_needs_quote: "matchFeet t = Some r \<Longrightarrow> 39 \<in> set t"
proof -
  assume a: "matchFeet t = Some r"
  then obtain r2 where "dropWhile isDigit t = 39 # r2"
    unfolding matchFeet_def Let_def by (auto split: if_splits list.splits)
  then have "39 \<in> set (dropWhile isDigit t)" by simp
  then show ?thesis by (meson set_dropWhileD)
qed

lemma firstMatch_None:
  "(\<And>k. k \<le> length s \<Longrightarrow> m (drop k s) = None) \<Longrightarrow> firstMatch m s = None"
proof (induction s)
  case Nil
  then show ?case by simp
next
  case (Cons c s)
  have "m (c # s) = None" using Cons.prems [of 0] by simp
  moreover have "firstMatch m s = None"
  proof (rule Cons.IH)
    fix k assume "k \<le> length s"
    then show "m (drop k s) = None" using Cons.prems [of "Suc k"] by simp
  qed
  ultimately show ?case by simp
qed

lemma no_dquote_no_feetInches: "34 \<notin> set s \<Longrightarrow> firstMatch matchFeetInches s = None"
proof (rule firstMatch_None)
  fix k assume "34 \<notin> set s"
  then have "34 \<notin> set (drop k s)" by (meson in_set_dropD)
  then show "matchFeetInches (drop k s) = None"
    using matchFeetInches_needs_dquote by (cases "matchFeetInches (drop k s)") auto
qed

lemma no_quote_no_feet: "39 \<notin> set s \<Longrightarrow> firstMatch matchFeet s = None"
proof (rule firstMatch_None)
  fix k assume "39 \<notin> set s"
  then have "39 \<notin> set (drop k s)" by (meson in_set_dropD)
  then show "matchFeet (drop k s) = None"
    using matchFeet_needs_quote by (cases "matchFeet (drop k s)") auto
qed

lemma digitBeforeQuote_iff:
  "digitBeforeQuote s \<longleftrightarrow> (\<exists>pre d post. s = pre @ d # 39 # post \<and> isDigit d)"
proof
  assume "digitBeforeQuote s"
  then show "\<exists>pre d post. s = pre @ d # 39 # post \<and> isDigit d"
  proof (induction s)
    case Nil
    then show ?case by (simp add: digitBeforeQuote_def)
  next
    case (Cons c cs)
    show ?case
    proof (cases cs)
      case Nil
      then show ?thesis using Cons.prems by (simp add: digitBeforeQuote_def)
    next
      case (Cons q r)
      show ?thesis
      proof (cases "isDigit c \<and> q = 39")
        case True
        then have "c # cs = [] @ c # 39 # r \<and> isDigit c" using Cons by simp
        then show ?thesis by blast
      next
        case False
        then have "digitBeforeQuote cs" using Cons.prems Cons by (auto simp: digitBeforeQuote_def)
        then obtain pre d post where "cs = pre @ d # 39 # post" "isDigit d"
          using Cons.IH by blast
        then have "c # cs = (c # pre) @ d # 39 # post \<and> isDigit d" by simp
        then show ?thesis by blast
      qed
    qed
  qed
next
  assume "\<exists>pre d post. s = pre @ d # 39 # post \<and> isDigit d"
  then obtain pre d post where s: "s = pre @ d # 39 # post" and d: "isDigit d" by blast
  have "digitBeforeQuote (pre @ d # 39 # post)"
  proof (induction pre)
    case Nil
    show ?case using d by (simp add: digitBeforeQuote_def)
  next
    case (Cons c pre)
    then show ?case by (cases pre) (auto simp: digitBeforeQuote_def)
  qed
  then show "digitBeforeQuote s" using s by simp
qed

lemma matchFeet_Some_shape:
  assumes "matchFeet t = Some F"
  shows "\<exists>d post pre. t = pre @ d # 39 # post \<and> isDigit d"
proof -
  from assms obtain r2 where F: "takeWhile isDigit t = F" "F \<noteq> []"
    and r: "dropWhile isDigit t = 39 # r2"
    unfolding matchFeet_def Let_def by (auto split: if_splits list.splits)
  have t: "t = F @ 39 # r2" using F(1) r takeWhile_dropWhile_id [of isDigit t] by simp
  have "isDigit (last F)"
    using F by (metis last_in_set set_takeWhileD)
  moreover have "t = butlast F @ last F # 39 # r2" using t F(2) by simp
  ultimately show ?thesis by blast
qed

lemma firstMatch_Some_suffix:
  "firstMatch m s = Some r \<Longrightarrow> \<exists>k. m (drop k s) = Some r"
proof (induction s)
  case Nil
  then show ?case by simp
next
  case (Cons c s)
  show ?case
  proof (cases "m (c # s)")
    case None
    then have "firstMatch m s = Some r" using Cons.prems by simp
    then obtain k where "m (drop k s) = Some r" using Cons.IH by blast
    then have "m (drop (Suc k) (c # s)) = Some r" by simp
    then show ?thesis by blast
  next
    case (Some a)
    then have "m (drop 0 (c # s)) = Some r" using Cons.prems by simp
    then show ?thesis by blast
  qed
qed

lemma firstMatch_append_None:
  "firstMatch m (p @ t) = None \<Longrightarrow> firstMatch m t = None"
proof (induction p)
  case Nil
  then show ?case by simp
next
  case (Cons c p)
  then show ?case by (cases "m (c # p @ t)") simp_all
qed

lemma drop_shape:
  assumes "drop k s = pre @ d # q # post"
  shows "s = (take k s @ pre) @ d # q # post"
proof -
  have "(take k s @ pre) @ d # q # post = take k s @ (pre @ d # q # post)"
    by (rule append_assoc)
  also have "\<dots> = take k s @ drop k s" by (simp only: assms)
  also have "\<dots> = s" by (rule append_take_drop_id)
  finally show ?thesis by (rule sym)
qed

lemma firstMatch_feet_None_iff:
  "firstMatch matchFeet s = None \<longleftrightarrow> \<not> digitBeforeQuote s"
proof
  assume n: "firstMatch matchFeet s = None"
  show "\<not> digitBeforeQuote s"
  proof
    assume "digitBeforeQuote s"
    then obtain pre d post where s: "s = pre @ d # 39 # post" and d: "isDigit d"
      using digitBeforeQuote_iff by blast
    have "matchFeet (d # 39 # post) = Some [d]"
      using matchFeet_form [of "[d]" post] d by simp
    then have "firstMatch matchFeet (d # 39 # post) \<noteq> None" by simp
    moreover have "firstMatch matchFeet (d # 39 # post) = None"
      using n unfolding s by (rule firstMatch_append_None)
    ultimately show False by simp
  qed
next
  assume nd: "\<not> digitBeforeQuote s"
  show "firstMatch matchFeet s = None"
  proof (cases "firstMatch matchFeet s")
    case None
    then show ?thesis .
  next
    case (Some F)
    from firstMatch_Some_suffix [OF Some]
    obtain k where "matchFeet (drop k s) = Some F" ..
    then obtain pre d post where e: "drop k s = pre @ d # 39 # post" and d: "isDigit d"
      using matchFeet_Some_shape by blast
    from e have "s = (take k s @ pre) @ d # 39 # post" by (rule drop_shape)
    with d have "digitBeforeQuote s" unfolding digitBeforeQuote_iff by blast
    then show ?thesis using nd by simp
  qed
qed

lemma feetInches_implies_feet:
  "firstMatch matchFeet s = None \<Longrightarrow> firstMatch matchFeetInches s = None"
proof (cases "firstMatch matchFeetInches s")
  case None
  then show ?thesis by simp
next
  case (Some r)
  assume n: "firstMatch matchFeet s = None"
  from firstMatch_Some_suffix [OF Some]
  obtain k where k: "matchFeetInches (drop k s) = Some r" ..
  let ?t = "drop k s"
  from k obtain r2 where "takeWhile isDigit ?t \<noteq> []" "dropWhile isDigit ?t = 39 # r2"
    unfolding matchFeetInches_def Let_def by (auto split: if_splits list.splits)
  then have "matchFeet ?t = Some (takeWhile isDigit ?t)"
    by (simp add: matchFeet_def Let_def)
  then obtain pre d post where e: "?t = pre @ d # 39 # post" and d: "isDigit d"
    using matchFeet_Some_shape by blast
  from e have "s = (take k s @ pre) @ d # 39 # post" by (rule drop_shape)
  with d have "digitBeforeQuote s" unfolding digitBeforeQuote_iff by blast
  then show ?thesis using n firstMatch_feet_None_iff by blast
qed

lemma units_Infinity: "units ''Infinity'' = [73, 110, 102, 105, 110, 105, 116, 121]"
  by (simp add: units_def)

lemma takeWhile_digit_Nil: "takeWhile isDigit u = [] \<longleftrightarrow> (case u of [] \<Rightarrow> True | d # _ \<Rightarrow> \<not> isDigit d)"
  by (cases u) auto

lemma unsignedDecimal_None_iff:
  "unsignedDecimal u = None \<longleftrightarrow>
     \<not> (take 8 u = units ''Infinity''
        \<or> (case u of
              [] \<Rightarrow> False
            | d # r \<Rightarrow> isDigit d \<or> (d = 46 \<and> (case r of [] \<Rightarrow> False | d' # _ \<Rightarrow> isDigit d'))))"
proof (cases u)
  case Nil
  then show ?thesis by (simp add: unsignedDecimal_def units_Infinity)
next
  case (Cons d r)
  show ?thesis
  proof (cases "isDigit d")
    case True
    then show ?thesis using Cons
      by (auto simp: unsignedDecimal_def Let_def split: list.splits)
  next
    case False
    then show ?thesis using Cons
      by (auto simp: unsignedDecimal_def Let_def takeWhile_digit_Nil split: list.splits)
  qed
qed

lemma parseFloat_None_iff: "parseFloat s = None \<longleftrightarrow> \<not> startsNumeric s"
proof (cases "dropWhile isWhiteSpace s")
  case Nil
  show ?thesis
    unfolding parseFloat_def startsNumeric_def Let_def Nil by (simp add: units_Infinity)
next
  case (Cons sg r)
  show ?thesis
    unfolding parseFloat_def startsNumeric_def Let_def Cons
    by (simp add: unsignedDecimal_None_iff)
qed

lemma digits_takeWhile: "list_all isDigit ds \<Longrightarrow> takeWhile isDigit ds = ds"
  by (induction ds) auto

lemma digits_dropWhile: "list_all isDigit ds \<Longrightarrow> dropWhile isDigit ds = []"
  by (induction ds) auto

lemma digit_start:
  assumes "list_all isDigit ds" "ds \<noteq> []"
  shows "dropWhile isWhiteSpace (ds @ rest) = ds @ rest"
    and "hd (ds @ rest) \<noteq> 45" and "hd (ds @ rest) \<noteq> 43"
    and "take 8 (ds @ rest) \<noteq> units ''Infinity''"
proof -
  obtain d ds' where ds: "ds = d # ds'" using assms(2) by (cases ds) auto
  then have d: "isDigit d" using assms(1) by simp
  show "dropWhile isWhiteSpace (ds @ rest) = ds @ rest"
    using ds d by (simp add: digit_not_space)
  show "hd (ds @ rest) \<noteq> 45" "hd (ds @ rest) \<noteq> 43"
    using ds d by (auto simp: isDigit_def)
  show "take 8 (ds @ rest) \<noteq> units ''Infinity''"
    using ds d by (auto simp: isDigit_def units_Infinity)
qed

lemma parseFloat_unsigned:
  assumes "list_all isDigit ds" "ds \<noteq> []"
  shows "parseFloat (ds @ rest) = unsignedDecimal (ds @ rest)"
proof -
  obtain d ds' where ds: "ds = d # ds'" using assms(2) by (cases ds) auto
  then have d: "isDigit d" using assms(1) by simp
  have "dropWhile isWhiteSpace (ds @ rest) = d # ds' @ rest"
    using ds d by (simp add: digit_not_space)
  moreover have "d \<noteq> 45" "d \<noteq> 43" using d by (auto simp: isDigit_def)
  ultimately show ?thesis by (simp add: parseFloat_def Let_def ds)
qed

lemma parseFloat_integer:
  assumes "list_all isDigit ip" "ip \<noteq> []"
  shows "parseFloat ip = Some (Num (real (digitsValue ip)))"
proof -
  have "parseFloat ip = unsignedDecimal ip"
    using parseFloat_unsigned [OF assms, of "[]"] by simp
  moreover have "take 8 ip \<noteq> units ''Infinity''"
    using digit_start(4) [OF assms, of "[]"] by simp
  ultimately show ?thesis
    using assms by (simp add: unsignedDecimal_def Let_def digits_takeWhile digits_dropWhile)
qed

lemma parseFloat_fraction:
  assumes "list_all isDigit ip" "ip \<noteq> []" "list_all isDigit fp"
  shows "parseFloat (ip @ 46 # fp)
         = Some (Num (real (digitsValue ip) + real (digitsValue fp) / 10 ^ length fp))"
proof -
  have "parseFloat (ip @ 46 # fp) = unsignedDecimal (ip @ 46 # fp)"
    using assms(1,2) by (rule parseFloat_unsigned)
  moreover have "take 8 (ip @ 46 # fp) \<noteq> units ''Infinity''"
    using assms(1,2) by (rule digit_start(4))
  moreover have "takeWhile isDigit (ip @ 46 # fp) = ip" "dropWhile isDigit (ip @ 46 # fp) = 46 # fp"
    using assms(1) by (simp_all add: takeWhile_run dropWhile_run)
  ultimately show ?thesis
    using assms(2,3)
    by (simp add: unsignedDecimal_def Let_def digits_takeWhile digits_dropWhile exponentPart_def)
qed

lemma parseFeetInches_no_quote: "39 \<notin> set s \<Longrightarrow> parseFeetInches s = parseFloat s"
proof -
  assume a: "39 \<notin> set s"
  then have f: "firstMatch matchFeet s = None" by (rule no_quote_no_feet)
  then have "firstMatch matchFeetInches s = None" by (rule feetInches_implies_feet)
  then show ?thesis using f by (simp add: parseFeetInches_def)
qed

lemma digits_no_quote: "list_all isDigit ds \<Longrightarrow> 39 \<notin> set ds"
  by (induction ds) auto

text \<open>
  Claim C7, as amended.  \<open>parseFeetInches\<close> returns \<open>F + I/12\<close> for a string whose
  first digits-and-apostrophe is a feet-inches form \<open>F'I"\<close> (white space may separate
  the apostrophe and \<open>I\<close>); it returns \<open>F\<close> for a string with bare feet \<open>F'\<close> and
  no double quote; without any apostrophe it returns what \<open>parseFloat\<close> returns, which
  for a plain decimal string is its decimal value.  It returns \<open>null\<close> exactly when no
  digit of the input is immediately followed by an apostrophe and the input does not
  start, after white space and an optional sign, with \<open>Infinity\<close>, a digit, or a point
  and a digit.
\<close>

theorem parseFeetInches_formats:
  "(list_all isDigit F \<and> F \<noteq> [] \<and> list_all isWhiteSpace ws \<and> list_all isDigit I \<and> I \<noteq> []
      \<and> 39 \<notin> set pre \<and> (pre = [] \<or> \<not> isDigit (last pre))
     \<longrightarrow> parseFeetInches (pre @ F @ 39 # ws @ I @ 34 # post)
          = Some (Num (real (digitsValue F) + real (digitsValue I) / 12)))
   \<and> (list_all isDigit F \<and> F \<noteq> [] \<and> 39 \<notin> set pre \<and> (pre = [] \<or> \<not> isDigit (last pre))
      \<and> 34 \<notin> set pre \<and> 34 \<notin> set post
     \<longrightarrow> parseFeetInches (pre @ F @ 39 # post) = Some (Num (real (digitsValue F))))
   \<and> (39 \<notin> set s \<longrightarrow> parseFeetInches s = parseFloat s)
   \<and> (list_all isDigit ip \<and> ip \<noteq> [] \<and> list_all isDigit fp
     \<longrightarrow> parseFeetInches ip = Some (Num (real (digitsValue ip)))
         \<and> parseFeetInches (ip @ 46 # fp)
             = Some (Num (real (digitsValue ip) + real (digitsValue fp) / 10 ^ length fp)))
   \<and> (parseFeetInches s = None \<longleftrightarrow> \<not> digitBeforeQuote s \<and> \<not> startsNumeric s)"
proof (intro conjI impI)
  assume a: "list_all isDigit F \<and> F \<noteq> [] \<and> list_all isWhiteSpace ws \<and> list_all isDigit I \<and> I \<noteq> []
      \<and> 39 \<notin> set pre \<and> (pre = [] \<or> \<not> isDigit (last pre))"
  then have "firstMatch matchFeetInches (pre @ F @ 39 # ws @ I @ 34 # post)
             = firstMatch matchFeetInches (F @ 39 # ws @ I @ 34 # post)"
    by (intro firstMatch_after_prefix(2)) simp_all
  also have "\<dots> = Some (F, I)"
    using a by (intro firstMatch_here matchFeetInches_form) simp_all
  finally show "parseFeetInches (pre @ F @ 39 # ws @ I @ 34 # post)
          = Some (Num (real (digitsValue F) + real (digitsValue I) / 12))"
    by (simp add: parseFeetInches_def)
next
  assume a: "list_all isDigit F \<and> F \<noteq> [] \<and> 39 \<notin> set pre \<and> (pre = [] \<or> \<not> isDigit (last pre))
      \<and> 34 \<notin> set pre \<and> 34 \<notin> set post"
  have "34 \<notin> set F" using a by (auto simp: list_all_iff)
  then have "34 \<notin> set (pre @ F @ 39 # post)" using a by simp
  then have 1: "firstMatch matchFeetInches (pre @ F @ 39 # post) = None"
    by (rule no_dquote_no_feetInches)
  have "firstMatch matchFeet (pre @ F @ 39 # post) = firstMatch matchFeet (F @ 39 # post)"
    using a by (intro firstMatch_after_prefix(1)) simp_all
  also have "\<dots> = Some F"
    using a by (intro firstMatch_here matchFeet_form) simp_all
  finally show "parseFeetInches (pre @ F @ 39 # post) = Some (Num (real (digitsValue F)))"
    using 1 by (simp add: parseFeetInches_def)
next
  assume "39 \<notin> set s"
  then show "parseFeetInches s = parseFloat s" by (rule parseFeetInches_no_quote)
next
  assume a: "list_all isDigit ip \<and> ip \<noteq> [] \<and> list_all isDigit fp"
  then have "39 \<notin> set ip" by (simp add: digits_no_quote)
  then show "parseFeetInches ip = Some (Num (real (digitsValue ip)))"
    using a by (simp add: parseFeetInches_no_quote parseFloat_integer)
next
  assume a: "list_all isDigit ip \<and> ip \<noteq> [] \<and> list_all isDigit fp"
  then have "39 \<notin> set (ip @ 46 # fp)" by (simp add: digits_no_quote)
  then have "parseFeetInches (ip @ 46 # fp) = parseFloat (ip @ 46 # fp)"
    by (rule parseFeetInches_no_quote)
  then show "parseFeetInches (ip @ 46 # fp)
             = Some (Num (real (digitsValue ip) + real (digitsValue fp) / 10 ^ length fp))"
    using a by (simp add: parseFloat_fraction)
next
  show "parseFeetInches s = None \<longleftrightarrow> \<not> digitBeforeQuote s \<and> \<not> startsNumeric s"
  proof (cases "firstMatch matchFeet s")
    case None
    then have "firstMatch matchFeetInches s = None" by (rule feetInches_implies_feet)
    then have "parseFeetInches s = parseFloat s" using None by (simp add: parseFeetInches_def)
    moreover have "\<not> digitBeforeQuote s" using None by (simp add: firstMatch_feet_None_iff)
    ultimately show ?thesis by (simp add: parseFloat_None_iff)
  next
    case (Some F)
    then have "parseFeetInches s \<noteq> None"
      by (simp add: parseFeetInches_def split: option.splits)
    moreover have "digitBeforeQuote s"
      using Some firstMatch_feet_None_iff [of s] by simp
    ultimately show ?thesis by simp
  qed
qed

theorem parseFeetInches_formats_witness:
  "parseFeetInches (units ''L: 12' 6'' @ [34] @ units '' long'') = Some (Num 12.5)
   \<and> parseFeetInches (units ''about 4'6'') = Some (Num 4)
   \<and> parseFeetInches (units '' -7.25e1 ft'') = Some (Num (-72.5))
   \<and> parseFeetInches (units ''3'') = Some (Num 3)
   \<and> parseFeetInches (units ''3.75'') = Some (Num 3.75)"
  using parseFeetInches_formats
          [where F = "units ''12''" and ws = "units '' ''" and I = "units ''6''"
             and pre = "units ''L: ''" and post = "units '' long''"
             and s = "units '' -7.25e1 ft''" and ip = "units ''3''" and fp = "units ''75''"]
        parseFeetInches_formats
          [where F = "units ''4''" and ws = "[]" and I = "units ''6''"
             and pre = "units ''about ''" and post = "units ''6''"
             and s = "units '' -7.25e1 ft''" and ip = "units ''3''" and fp = "units ''75''"]
  by (simp add: units_def isDigit_def isWhiteSpace_def digitsValue_def parseFloat_def
        unsignedDecimal_def exponentPart_def negate_def)

text \<open>
  The claim as stated fails on text after a number.  \<open>12abc\<close> has no apostrophe and no
  double quote and is not a plain decimal string, so it matches none of the three
  formats; the result is 12, not \<open>null\<close>.
\<close>

theorem parseFeetInches_trailing_text:
  "parseFeetInches (units ''12abc'') = Some (Num 12)
   \<and> 39 \<notin> set (units ''12abc'') \<and> 34 \<notin> set (units ''12abc'')
   \<and> \<not> plainDecimal (units ''12abc'')"
  by (simp add: parseFeetInches_def units_def matchFeetInches_def matchFeet_def isDigit_def
        parseFloat_def isWhiteSpace_def unsignedDecimal_def digitsValue_def exponentPart_def
        plainDecimal_def)

section \<open>Properties of the placement validator\<close>

text \<open>
  Claim C3.  For every candidate object, every exclude id and any two rooms with the
  same \<open>objects\<close> and \<open>tempWalls\<close>, \<open>isValidPlacement\<close> returns the same result,
  whatever the rooms' boundary \<open>points\<close> (and ids, names and labels) are: containment in
  the room polygon is not enforced.
\<close>

theorem isValidPlacement_ignores_boundary:
  "objects room1 = objects room2 \<Longrightarrow> tempWalls room1 = tempWalls room2 \<Longrightarrow>
     isValidPlacement objectLibrary obj room1 excludeId
     = isValidPlacement objectLibrary obj room2 excludeId"
  by (simp add: isValidPlacement_def split: option.split)

theorem isValidPlacement_ignores_boundary_witness:
  "objects \<lparr>room_id = ''r'', room_name = ''Room'', points = [],
            objects = [\<lparr>obj_id = ''b'', definitionId = ''sofa'', obj_x = 1, obj_y = 1, rotation = 90\<rparr>],
            tempWalls = [], labels = None\<rparr>
   = objects \<lparr>room_id = ''r'', room_name = ''Room'',
              points = [\<lparr>px = 0, py = 0\<rparr>, \<lparr>px = 3, py = 0\<rparr>, \<lparr>px = 3, py = 3\<rparr>, \<lparr>px = 0, py = 3\<rparr>],
              objects = [\<lparr>obj_id = ''b'', definitionId = ''sofa'', obj_x = 1, obj_y = 1, rotation = 90\<rparr>],
              tempWalls = [], labels = None\<rparr>
   \<and> isValidPlacement [\<lparr>def_id = ''sofa'', def_name = ''Sofa'', def_width = 2, def_length = 4, def_type = None\<rparr>]
         \<lparr>obj_id = ''a'', definitionId = ''sofa'', obj_x = 20, obj_y = 20, rotation = 0\<rparr>
         \<lparr>room_id = ''r'', room_name = ''Room'', points = [],
            objects = [\<lparr>obj_id = ''b'', definitionId = ''sofa'', obj_x = 1, obj_y = 1, rotation = 90\<rparr>],
            tempWalls = [], labels = None\<rparr> None
     = isValidPlacement [\<lparr>def_id = ''sofa'', def_name = ''Sofa'', def_width = 2, def_length = 4, def_type = None\<rparr>]
         \<lparr>obj_id = ''a'', definitionId = ''sofa'', obj_x = 20, obj_y = 20, rotation = 0\<rparr>
         \<lparr>room_id = ''r'', room_name = ''Room'',
              points = [\<lparr>px = 0, py = 0\<rparr>, \<lparr>px = 3, py = 0\<rparr>, \<lparr>px = 3, py = 3\<rparr>, \<lparr>px = 0, py = 3\<rparr>],
              objects = [\<lparr>obj_id = ''b'', definitionId = ''sofa'', obj_x = 1, obj_y = 1, rotation = 90\<rparr>],
              tempWalls = [], labels = None\<rparr> None"
  using isValidPlacement_ignores_boundary
    [of "\<lparr>room_id = ''r'', room_name = ''Room'', points = [],
            objects = [\<lparr>obj_id = ''b'', definitionId = ''sofa'', obj_x = 1, obj_y = 1, rotation = 90\<rparr>],
            tempWalls = [], labels = None\<rparr>"
        "\<lparr>room_id = ''r'', room_name = ''Room'',
              points = [\<lparr>px = 0, py = 0\<rparr>, \<lparr>px = 3, py = 0\<rparr>, \<lparr>px = 3, py = 3\<rparr>, \<lparr>px = 0, py = 3\<rparr>],
              objects = [\<lparr>obj_id = ''b'', definitionId = ''sofa'', obj_x = 1, obj_y = 1, rotation = 90\<rparr>],
              tempWalls = [], labels = None\<rparr>"
        "[\<lparr>def_id = ''sofa'', def_name = ''Sofa'', def_width = 2, def_length = 4, def_type = None\<rparr>]"
        "\<lparr>obj_id = ''a'', definitionId = ''sofa'', obj_x = 20, obj_y = 20, rotation = 0\<rparr>" None]
  by simp

lemma objectOverlapCheck_filter:
  "objectOverlapCheck lib obj ex rect (filter (resolves lib) os)
   = objectOverlapCheck lib obj ex rect os"
  by (induction os) (auto simp: resolves_def split: option.splits)

lemma isValidPlacement_filter:
  "isValidPlacement lib obj (room\<lparr>objects := filter (resolves lib) (objects room)\<rparr>) ex
   = isValidPlacement lib obj room ex"
  by (simp add: isValidPlacement_def objectOverlapCheck_filter split: option.split)

text \<open>
  Claim C8.  If the candidate's \<open>definitionId\<close> does not resolve in the object
  library, \<open>isValidPlacement\<close> returns false.  Every other object of the room whose
  \<open>definitionId\<close> does not resolve is skipped by the overlap loop, so it never makes a
  placement invalid: the result is the one for the room without its dangling objects.
  The function has no failing branch (a missing definition is tested before it is used).
\<close>

theorem isValidPlacement_dangling:
  "(findDef objectLibrary (definitionId obj) = None \<longrightarrow>
      \<not> isValidPlacement objectLibrary obj room excludeId)
   \<and> (\<not> resolves objectLibrary other \<longrightarrow>
        objectOverlapCheck objectLibrary obj excludeId rect (other # rest)
        = objectOverlapCheck objectLibrary obj excludeId rect rest)
   \<and> isValidPlacement objectLibrary obj room excludeId
     = isValidPlacement objectLibrary obj
         (room\<lparr>objects := filter (resolves objectLibrary) (objects room)\<rparr>) excludeId"
proof (intro conjI impI)
  assume "findDef objectLibrary (definitionId obj) = None"
  then show "\<not> isValidPlacement objectLibrary obj room excludeId"
    by (simp add: isValidPlacement_def)
next
  assume "\<not> resolves objectLibrary other"
  then show "objectOverlapCheck objectLibrary obj excludeId rect (other # rest)
        = objectOverlapCheck objectLibrary obj excludeId rect rest"
    by (simp add: resolves_def)
next
  show "isValidPlacement objectLibrary obj room excludeId
     = isValidPlacement objectLibrary obj
         (room\<lparr>objects := filter (resolves objectLibrary) (objects room)\<rparr>) excludeId"
    by (simp add: isValidPlacement_filter)
qed

theorem isValidPlacement_dangling_witness:
  "findDef [\<lparr>def_id = ''sofa'', def_name = ''Sofa'', def_width = 2, def_length = 4, def_type = None\<rparr>] ''gone'' = None
   \<and> \<not> resolves [\<lparr>def_id = ''sofa'', def_name = ''Sofa'', def_width = 2, def_length = 4, def_type = None\<rparr>]
         \<lparr>obj_id = ''b'', definitionId = ''gone'', obj_x = 5, obj_y = 5, rotation = 0\<rparr>
   \<and> \<not> isValidPlacement [\<lparr>def_id = ''sofa'', def_name = ''Sofa'', def_width = 2, def_length = 4, def_type = None\<rparr>]
         \<lparr>obj_id = ''a'', definitionId = ''gone'', obj_x = 5, obj_y = 5, rotation = 0\<rparr>
         \<lparr>room_id = ''r'', room_name = ''Room'', points = [], objects = [], tempWalls = [], labels = None\<rparr> None
   \<and> isValidPlacement [\<lparr>def_id = ''sofa'', def_name = ''Sofa'', def_width = 2, def_length = 4, def_type = None\<rparr>]
         \<lparr>obj_id = ''a'', definitionId = ''sofa'', obj_x = 5, obj_y = 5, rotation = 0\<rparr>
         \<lparr>room_id = ''r'', room_name = ''Room'', points = [],
          objects = [\<lparr>obj_id = ''b'', definitionId = ''gone'', obj_x = 5, obj_y = 5, rotation = 0\<rparr>],
          tempWalls = [], labels = None\<rparr> None"
  using isValidPlacement_dangling [of "[\<lparr>def_id = ''sofa'', def_name = ''Sofa'', def_width = 2, def_length = 4, def_type = None\<rparr>]"
              "\<lparr>obj_id = ''a'', definitionId = ''gone'', obj_x = 5, obj_y = 5, rotation = 0\<rparr>"
              "\<lparr>room_id = ''r'', room_name = ''Room'', points = [], objects = [], tempWalls = [], labels = None\<rparr>"
              None]
        isValidPlacement_dangling [of "[\<lparr>def_id = ''sofa'', def_name = ''Sofa'', def_width = 2, def_length = 4, def_type = None\<rparr>]"
              "\<lparr>obj_id = ''a'', definitionId = ''sofa'', obj_x = 5, obj_y = 5, rotation = 0\<rparr>"
              "\<lparr>room_id = ''r'', room_name = ''Room'', points = [],
          objects = [\<lparr>obj_id = ''b'', definitionId = ''gone'', obj_x = 5, obj_y = 5, rotation = 0\<rparr>],
          tempWalls = [], labels = None\<rparr>"
              None
              "\<lparr>obj_id = ''b'', definitionId = ''gone'', obj_x = 5, obj_y = 5, rotation = 0\<rparr>"]
  by (simp add: findDef_def isValidPlacement_def resolves_def)

section \<open>Properties of the snapping engine\<close>

lemma onGrid_Ints: "onGrid v \<longleftrightarrow> v \<in> \<int>"
  unfolding onGrid_def GRID_SIZE_def
  by (metis Ints_of_int div_by_1 mult.right_neutral floor_of_int Ints_cases)

lemma snapToGrid_onGrid: "onGrid v \<Longrightarrow> snapToGrid v = v"
  unfolding onGrid_Ints snapToGrid_def GRID_SIZE_def
  by (auto elim!: Ints_cases)

lemma edgeSnap_clear: "edgeClear v e \<Longrightarrow> edgeSnap v e v = v"
  by (simp add: edgeSnap_def edgeClear_def)

lemma wallSnap_fold_clear:
  assumes "list_all (\<lambda>i. (\<bar>px (pts ! i) - px (pts ! ((i + 1) mod length pts))\<bar> < 0.01
                      \<and> \<bar>x - px (pts ! i)\<bar> < threshold \<longrightarrow> px (pts ! i) = x)
                 \<and> (\<bar>py (pts ! i) - py (pts ! ((i + 1) mod length pts))\<bar> < 0.01
                      \<and> \<bar>y - py (pts ! i)\<bar> < threshold \<longrightarrow> py (pts ! i) = y)) idxs"
  shows "fold (wallSnapStep x y pts) idxs (x, y) = (x, y)"
  using assms
proof (induction idxs)
  case Nil
  show ?case by simp
next
  case (Cons i idxs)
  have "wallSnapStep x y pts i (x, y) = (x, y)"
    using Cons.prems by (auto simp: wallSnapStep_def Let_def)
  then show ?case using Cons by simp
qed

lemma objectSnapStep_clear:
  assumes "objectFeaturesClear lib objId x y other"
  shows "objectSnapStep lib x y objId other (x, y) = (x, y)"
  using assms
  by (auto simp: objectSnapStep_def objectFeaturesClear_def Let_def edgeSnap_clear
           split: option.splits)

lemma objectSnap_fold_clear:
  assumes "list_all (objectFeaturesClear lib objId x y) os"
  shows "fold (objectSnapStep lib x y objId) os (x, y) = (x, y)"
  using assms
  by (induction os) (simp_all add: objectSnapStep_clear)

text \<open>
  Claim C2, as amended.  For every room state, object library and point whose x and y
  are integer multiples of the grid unit, \<open>findSnapTarget\<close> returns that same point
  provided no snap feature of the active room lies strictly within the threshold of
  0.5 ft of x (resp. y) without being x (resp. y) itself (the x of every vertical
  boundary edge, the y of every horizontal one, the footprint edges of every object that
  is neither excluded nor dangling), or no room is active.  Features need not be on the
  grid: the 3 ft door centred at (5, 5) has its edges at 3.5 and 6.5, exactly 0.5 ft from
  the grid lines, and moves no grid point.
\<close>

theorem findSnapTarget_grid_fixed:
  "onGrid x \<Longrightarrow> onGrid y \<Longrightarrow> featuresClear activeRoom objectLibrary objId x y \<Longrightarrow>
     findSnapTarget activeRoom objectLibrary x y objId = \<lparr>px = x, py = y\<rparr>"
  by (auto simp: findSnapTarget_def featuresClear_def wallFeaturesClear_def Let_def
                   snapToGrid_onGrid wallSnap_fold_clear objectSnap_fold_clear
           split: option.splits)

theorem findSnapTarget_grid_fixed_witness:
  "onGrid 3 \<and> onGrid 5
   \<and> featuresClear (Some \<lparr>room_id = ''r'', room_name = ''Room'',
               points = [\<lparr>px = 3, py = 0\<rparr>, \<lparr>px = 3, py = 8\<rparr>, \<lparr>px = 6, py = 8\<rparr>, \<lparr>px = 6, py = 0\<rparr>],
               objects = [\<lparr>obj_id = ''d'', definitionId = ''door'', obj_x = 5, obj_y = 5, rotation = 0\<rparr>],
               tempWalls = [], labels = None\<rparr>)
        [\<lparr>def_id = ''door'', def_name = ''Door'', def_width = 3, def_length = 3, def_type = Some Door\<rparr>]
        None 3 5
   \<and> rect_x (getObjectRect \<lparr>obj_id = ''d'', definitionId = ''door'', obj_x = 5, obj_y = 5, rotation = 0\<rparr>
         \<lparr>def_id = ''door'', def_name = ''Door'', def_width = 3, def_length = 3, def_type = Some Door\<rparr>) = 3.5
   \<and> \<not> onGrid 3.5
   \<and> findSnapTarget
        (Some \<lparr>room_id = ''r'', room_name = ''Room'',
               points = [\<lparr>px = 3, py = 0\<rparr>, \<lparr>px = 3, py = 8\<rparr>, \<lparr>px = 6, py = 8\<rparr>, \<lparr>px = 6, py = 0\<rparr>],
               objects = [\<lparr>obj_id = ''d'', definitionId = ''door'', obj_x = 5, obj_y = 5, rotation = 0\<rparr>],
               tempWalls = [], labels = None\<rparr>)
        [\<lparr>def_id = ''door'', def_name = ''Door'', def_width = 3, def_length = 3, def_type = Some Door\<rparr>]
        3 5 None
      = \<lparr>px = 3, py = 5\<rparr>"
proof -
  have g: "onGrid 3" "onGrid 5" by (simp_all add: onGrid_def GRID_SIZE_def)
  have f: "featuresClear (Some \<lparr>room_id = ''r'', room_name = ''Room'',
               points = [\<lparr>px = 3, py = 0\<rparr>, \<lparr>px = 3, py = 8\<rparr>, \<lparr>px = 6, py = 8\<rparr>, \<lparr>px = 6, py = 0\<rparr>],
               objects = [\<lparr>obj_id = ''d'', definitionId = ''door'', obj_x = 5, obj_y = 5, rotation = 0\<rparr>],
               tempWalls = [], labels = None\<rparr>)
        [\<lparr>def_id = ''door'', def_name = ''Door'', def_width = 3, def_length = 3, def_type = Some Door\<rparr>]
        None 3 5"
    by (simp add: featuresClear_def wallFeaturesClear_def objectFeaturesClear_def edgeClear_def
          threshold_def findDef_def getObjectRect_def Let_def upt_rec)
  have n: "\<not> onGrid 3.5" by (simp add: onGrid_def GRID_SIZE_def)
  show ?thesis using g f n findSnapTarget_grid_fixed [OF g f]
    by (simp add: getObjectRect_def)
qed

text \<open>
  The claim as stated fails when a feature is off the grid.  A desk 1.5 ft wide centred
  at x = 4 has its left edge at x = 3.25; the grid-aligned point (3, 5) is within 0.5 ft
  of it and is moved to (3.25, 5).
\<close>

theorem findSnapTarget_off_grid_feature:
  "onGrid 3 \<and> onGrid 5
   \<and> findSnapTarget
        (Some \<lparr>room_id = ''r'', room_name = ''Room'', points = [],
               objects = [\<lparr>obj_id = ''b'', definitionId = ''desk'', obj_x = 4, obj_y = 9, rotation = 0\<rparr>],
               tempWalls = [], labels = None\<rparr>)
        [\<lparr>def_id = ''desk'', def_name = ''Desk'', def_width = 1.5, def_length = 4, def_type = None\<rparr>]
        3 5 None
      = \<lparr>px = 3.25, py = 5\<rparr>
   \<and> findSnapTarget
        (Some \<lparr>room_id = ''r'', room_name = ''Room'', points = [],
               objects = [\<lparr>obj_id = ''b'', definitionId = ''desk'', obj_x = 4, obj_y = 9, rotation = 0\<rparr>],
               tempWalls = [], labels = None\<rparr>)
        [\<lparr>def_id = ''desk'', def_name = ''Desk'', def_width = 1.5, def_length = 4, def_type = None\<rparr>]
        3 5 None
      \<noteq> \<lparr>px = 3, py = 5\<rparr>"
  by (simp add: onGrid_def GRID_SIZE_def findSnapTarget_def snapToGrid_def objectSnapStep_def
         findDef_def getObjectRect_def edgeSnap_def threshold_def Let_def)

section \<open>Properties of the wall segment solver\<close>

lemma solveDirections_pair:
  "solveDirections [\<lparr>seg_length = 2, orientation = a\<rparr>, \<lparr>seg_length = 2, orientation = b\<rparr>] = [2, -2]"
  by (simp add: solveDirections_def searchFrom.simps signedSum_def dirs_def dir_def upt_rec)

lemma searchFails_pair:
  "\<not> searchFails [\<lparr>seg_length = 2, orientation = a\<rparr>, \<lparr>seg_length = 2, orientation = b\<rparr>]"
  by (simp add: searchFails_def signedSum_def dir_def upt_rec)

text \<open>
  Claim C1.  For the segments \<open>[{2,H},{2,V},{2,H},{2,V}]\<close> and any mouse position,
  the sign search succeeds on the H and on the V subsequence: it returns \<open>[2, -2]\<close>,
  whose sum is within 0.01 of zero.  The normalised path is (10,10), (12,10), (12,12),
  (10,12), (10,10); its last point is less than 1 ft from its first; the solver emits a
  room whose points are the path without the closing point, four points, and the area
  of that polygon is 4.
\<close>

theorem square_closes:
  "\<not> searchFails (filter (\<lambda>s. orientation s = H)
        [\<lparr>seg_length = 2, orientation = H\<rparr>, \<lparr>seg_length = 2, orientation = V\<rparr>,
         \<lparr>seg_length = 2, orientation = H\<rparr>, \<lparr>seg_length = 2, orientation = V\<rparr>])
   \<and> \<bar>sum_list (solveDirections (filter (\<lambda>s. orientation s = H)
        [\<lparr>seg_length = 2, orientation = H\<rparr>, \<lparr>seg_length = 2, orientation = V\<rparr>,
         \<lparr>seg_length = 2, orientation = H\<rparr>, \<lparr>seg_length = 2, orientation = V\<rparr>]))\<bar> < 0.01
   \<and> \<not> searchFails (filter (\<lambda>s. orientation s = V)
        [\<lparr>seg_length = 2, orientation = H\<rparr>, \<lparr>seg_length = 2, orientation = V\<rparr>,
         \<lparr>seg_length = 2, orientation = H\<rparr>, \<lparr>seg_length = 2, orientation = V\<rparr>])
   \<and> \<bar>sum_list (solveDirections (filter (\<lambda>s. orientation s = V)
        [\<lparr>seg_length = 2, orientation = H\<rparr>, \<lparr>seg_length = 2, orientation = V\<rparr>,
         \<lparr>seg_length = 2, orientation = H\<rparr>, \<lparr>seg_length = 2, orientation = V\<rparr>]))\<bar> < 0.01
   \<and> map_option normalizePoints (bulkPath mousePos
        [\<lparr>seg_length = 2, orientation = H\<rparr>, \<lparr>seg_length = 2, orientation = V\<rparr>,
         \<lparr>seg_length = 2, orientation = H\<rparr>, \<lparr>seg_length = 2, orientation = V\<rparr>])
       = Some [\<lparr>px = 10, py = 10\<rparr>, \<lparr>px = 12, py = 10\<rparr>, \<lparr>px = 12, py = 12\<rparr>,
               \<lparr>px = 10, py = 12\<rparr>, \<lparr>px = 10, py = 10\<rparr>]
   \<and> distToStart [\<lparr>px = 10, py = 10\<rparr>, \<lparr>px = 12, py = 10\<rparr>, \<lparr>px = 12, py = 12\<rparr>,
                   \<lparr>px = 10, py = 12\<rparr>, \<lparr>px = 10, py = 10\<rparr>] < 1
   \<and> handleBulkWallInput mousePos
        [\<lparr>seg_length = 2, orientation = H\<rparr>, \<lparr>seg_length = 2, orientation = V\<rparr>,
         \<lparr>seg_length = 2, orientation = H\<rparr>, \<lparr>seg_length = 2, orientation = V\<rparr>]
       = NewRoom (butlast [\<lparr>px = 10, py = 10\<rparr>, \<lparr>px = 12, py = 10\<rparr>, \<lparr>px = 12, py = 12\<rparr>,
                           \<lparr>px = 10, py = 12\<rparr>, \<lparr>px = 10, py = 10\<rparr>])
   \<and> butlast [\<lparr>px = 10, py = 10\<rparr>, \<lparr>px = 12, py = 10\<rparr>, \<lparr>px = 12, py = 12\<rparr>,
               \<lparr>px = 10, py = 12\<rparr>, \<lparr>px = 10, py = 10\<rparr>]
       = [\<lparr>px = 10, py = 10\<rparr>, \<lparr>px = 12, py = 10\<rparr>, \<lparr>px = 12, py = 12\<rparr>, \<lparr>px = 10, py = 12\<rparr>]
   \<and> calculatePolygonArea [\<lparr>px = 10, py = 10\<rparr>, \<lparr>px = 12, py = 10\<rparr>, \<lparr>px = 12, py = 12\<rparr>,
                            \<lparr>px = 10, py = 12\<rparr>] = 4"
proof (intro conjI)
  show "\<not> searchFails (filter (\<lambda>s. orientation s = H)
        [\<lparr>seg_length = 2, orientation = H\<rparr>, \<lparr>seg_length = 2, orientation = V\<rparr>,
         \<lparr>seg_length = 2, orientation = H\<rparr>, \<lparr>seg_length = 2, orientation = V\<rparr>])"
    by (simp add: searchFails_pair)
  show "\<not> searchFails (filter (\<lambda>s. orientation s = V)
        [\<lparr>seg_length = 2, orientation = H\<rparr>, \<lparr>seg_length = 2, orientation = V\<rparr>,
         \<lparr>seg_length = 2, orientation = H\<rparr>, \<lparr>seg_length = 2, orientation = V\<rparr>])"
    by (simp add: searchFails_pair)
  show "map_option normalizePoints (bulkPath mousePos
        [\<lparr>seg_length = 2, orientation = H\<rparr>, \<lparr>seg_length = 2, orientation = V\<rparr>,
         \<lparr>seg_length = 2, orientation = H\<rparr>, \<lparr>seg_length = 2, orientation = V\<rparr>])
       = Some [\<lparr>px = 10, py = 10\<rparr>, \<lparr>px = 12, py = 10\<rparr>, \<lparr>px = 12, py = 12\<rparr>,
               \<lparr>px = 10, py = 12\<rparr>, \<lparr>px = 10, py = 10\<rparr>]"
    by (simp add: bulkPath_def solveDirections_pair normalizePoints_def Let_def snapToGrid_def
          GRID_SIZE_def)
  show "handleBulkWallInput mousePos
        [\<lparr>seg_length = 2, orientation = H\<rparr>, \<lparr>seg_length = 2, orientation = V\<rparr>,
         \<lparr>seg_length = 2, orientation = H\<rparr>, \<lparr>seg_length = 2, orientation = V\<rparr>]
       = NewRoom (butlast [\<lparr>px = 10, py = 10\<rparr>, \<lparr>px = 12, py = 10\<rparr>, \<lparr>px = 12, py = 12\<rparr>,
                           \<lparr>px = 10, py = 12\<rparr>, \<lparr>px = 10, py = 10\<rparr>])"
    by (simp add: handleBulkWallInput_def bulkPath_def solveDirections_pair normalizePoints_def
          Let_def snapToGrid_def GRID_SIZE_def distToStart_def)
  show "calculatePolygonArea [\<lparr>px = 10, py = 10\<rparr>, \<lparr>px = 12, py = 10\<rparr>, \<lparr>px = 12, py = 12\<rparr>,
                            \<lparr>px = 10, py = 12\<rparr>] = 4"
    by (simp add: calculatePolygonArea_def areaStep_def upt_rec)
qed (simp_all add: solveDirections_pair distToStart_def)

section \<open>Properties of the undo/redo history\<close>

lemma addToHistory_cap: "historyCap s \<Longrightarrow> historyCap (addToHistory c n s)"
  by (auto simp: historyCap_def addToHistory_def slice0_def Let_def)

lemma setRooms_cap: "historyCap s \<Longrightarrow> historyCap (setRooms c n b s)"
  using addToHistory_cap [of s c n] by (auto simp: setRooms_def historyCap_def)

lemma undo_cap: "historyCap s \<Longrightarrow> historyCap (undo s)"
  by (auto simp: historyCap_def undo_def Let_def)

lemma redo_cap: "historyCap s \<Longrightarrow> historyCap (redo s)"
  by (auto simp: historyCap_def redo_def Let_def)

lemma reachable_cap: "reachable seen s \<Longrightarrow> historyCap s"
proof (induction rule: reachable.induct)
  case (r_first noRooms)
  show ?case by (simp add: historyCap_def beforeMount_def)
next
  case (r_mount initialRooms)
  show ?case by (simp add: historyCap_def initHistory_def)
next
  case (r_set seen s capturedIndex n save)
  then show ?case by (simp add: setRooms_cap)
next
  case (r_undo seen s)
  then show ?case by (simp add: undo_cap)
next
  case (r_redo seen s)
  then show ?case by (simp add: redo_cap)
qed

lemma addToHistory_inv: "historyInv s \<Longrightarrow> historyInv (addToHistory (historyIndex s) n s)"
  by (auto simp: historyInv_def addToHistory_def slice0_def Let_def)

lemma setRooms_inv: "historyInv s \<Longrightarrow> historyInv (setRooms (historyIndex s) n b s)"
  using addToHistory_inv [of s n] by (auto simp: setRooms_def historyInv_def)

lemma undo_inv: "historyInv s \<Longrightarrow> historyInv (undo s)"
  by (auto simp: historyInv_def undo_def Let_def)

lemma redo_inv: "historyInv s \<Longrightarrow> historyInv (redo s)"
  by (auto simp: historyInv_def redo_def Let_def)

lemma inSync_inv: "inSync s \<Longrightarrow> historyInv s"
proof (induction rule: inSync.induct)
  case (s_mount r0)
  show ?case by (simp add: historyInv_def initHistory_def)
next
  case (s_set s n save)
  then show ?case by (simp add: setRooms_inv)
next
  case (s_undo s)
  then show ?case by (simp add: undo_inv)
next
  case (s_redo s)
  then show ?case by (simp add: redo_inv)
qed

lemma inSync_reachable: "inSync s \<Longrightarrow> \<exists>seen. reachable seen s \<and> historyIndex s \<in> set seen"
proof (induction rule: inSync.induct)
  case (s_mount r0)
  have "reachable [0, - 1] (initHistory r0)"
    by (rule reachable.r_mount)
  then show ?case by (auto simp: initHistory_def)
next
  case (s_set s n save)
  then obtain seen where "reachable seen s" "historyIndex s \<in> set seen" by blast
  then have "reachable (historyIndex (setRooms (historyIndex s) n save s) # seen)
               (setRooms (historyIndex s) n save s)" by (rule reachable.r_set)
  then show ?case by (meson list.set_intros(1))
next
  case (s_undo s)
  then obtain seen where "reachable seen s" by blast
  then have "reachable (historyIndex (undo s) # seen) (undo s)" by (rule reachable.r_undo)
  then show ?case by (meson list.set_intros(1))
next
  case (s_redo s)
  then obtain seen where "reachable seen s" by blast
  then have "reachable (historyIndex (redo s) # seen) (redo s)" by (rule reachable.r_redo)
  then show ?case by (meson list.set_intros(1))
qed

lemma last_tl_snoc: "xs \<noteq> [] \<Longrightarrow> last (tl (xs @ [n])) = n"
  by (cases xs) auto

lemma addToHistory_last: "last (history (addToHistory c n s)) = n"
proof -
  let ?p = "slice0 (history s) (c + 1)"
  have h: "history (addToHistory c n s) = (if length (?p @ [n]) > 50 then tl (?p @ [n]) else ?p @ [n])"
    by (simp add: addToHistory_def Let_def)
  show ?thesis
  proof (cases "length (?p @ [n]) > 50")
    case True
    then have "?p \<noteq> []" by auto
    then show ?thesis using h True by (simp add: last_tl_snoc)
  next
    case False
    then show ?thesis using h by simp
  qed
qed

lemma addToHistory_push:
  assumes "historyInv s"
  shows "history (addToHistory (historyIndex s) n s)
         = (let pushed = take (nat (historyIndex s + 1)) (history s) @ [n]
            in if length pushed > 50 then tl pushed else pushed)"
    and "historyIndex (addToHistory (historyIndex s) n s)
         = int (length (history (addToHistory (historyIndex s) n s))) - 1"
  using assms
  by (auto simp: historyInv_def addToHistory_def slice0_def Let_def)

lemma undo_redo_move:
  "history (undo s) = history s" "history (redo s) = history s"
  "historyIndex (undo s) = historyIndex s \<or> historyIndex (undo s) = historyIndex s - 1"
  "historyIndex (redo s) = historyIndex s \<or> historyIndex (redo s) = historyIndex s + 1"
  by (auto simp: undo_def redo_def Let_def)

text \<open>
  Two runs of the component: a push by a handler of the current render, and after it a
  push through a closure that still holds the index 0 of the render before.
\<close>

lemma run1: "reachable [1, 0, - 1] (setRooms 0 (2::nat) True (initHistory 1))"
proof -
  have a: "reachable [0, - 1] (initHistory (1::nat))"
    by (rule reachable.r_mount)
  have "reachable (historyIndex (setRooms 0 (2::nat) True (initHistory 1)) # [0, - 1])
          (setRooms 0 (2::nat) True (initHistory 1))"
    by (rule reachable.r_set [OF a]) simp
  then show ?thesis by (simp add: setRooms_def addToHistory_def initHistory_def slice0_def Let_def)
qed

lemma run2: "reachable [2, 1, 0, - 1] (setRooms 0 (3::nat) True (setRooms 0 2 True (initHistory 1)))"
proof -
  have "reachable (historyIndex (setRooms 0 (3::nat) True (setRooms 0 2 True (initHistory 1))) # [1, 0, - 1])
          (setRooms 0 (3::nat) True (setRooms 0 2 True (initHistory 1)))"
    by (rule reachable.r_set [OF run1]) simp
  then show ?thesis by (simp add: setRooms_def addToHistory_def initHistory_def slice0_def Let_def)
qed

text \<open>
  Claim C9, as amended.  In every state of the component the buffer holds at most 50
  snapshots and the cursor \<open>historyIndex\<close> lies between -1 and 49, whatever index the
  closures have captured.  Once the mount effect has initialised the history, and as long
  as every push is made by a handler of the current render, the cursor lies in
  \<open>[0, length - 1]\<close>: such a push keeps the entries up to the cursor, appends the new
  state and drops the oldest entry if that makes 51, and the cursor then points at the
  new, last entry; \<open>undo\<close> and \<open>redo\<close> leave the buffer alone and move the cursor
  by at most one position, within the bounds.
\<close>

theorem history_capped:
  "(reachable seen s \<longrightarrow>
       length (history s) \<le> 50 \<and> - 1 \<le> historyIndex s \<and> historyIndex s \<le> 49)
   \<and> (inSync s \<longrightarrow>
       length (history s) \<le> 50
       \<and> 0 \<le> historyIndex s \<and> historyIndex s \<le> int (length (history s)) - 1
       \<and> history (addToHistory (historyIndex s) newRooms s)
           = (let pushed = take (nat (historyIndex s + 1)) (history s) @ [newRooms]
              in if length pushed > 50 then tl pushed else pushed)
       \<and> historyIndex (addToHistory (historyIndex s) newRooms s)
           = int (length (history (addToHistory (historyIndex s) newRooms s))) - 1
       \<and> last (history (addToHistory (historyIndex s) newRooms s)) = newRooms
       \<and> history (undo s) = history s \<and> history (redo s) = history s
       \<and> (historyIndex (undo s) = historyIndex s \<or> historyIndex (undo s) = historyIndex s - 1)
       \<and> (historyIndex (redo s) = historyIndex s \<or> historyIndex (redo s) = historyIndex s + 1)
       \<and> 0 \<le> historyIndex (undo s)
       \<and> historyIndex (redo s) \<le> int (length (history s)) - 1)"
proof (intro conjI impI)
  assume "reachable seen s"
  then have "historyCap s" by (rule reachable_cap)
  then show "length (history s) \<le> 50" "- 1 \<le> historyIndex s" "historyIndex s \<le> 49"
    by (simp_all add: historyCap_def)
next
  assume "inSync s"
  then have inv: "historyInv s" by (rule inSync_inv)
  have u: "historyInv (undo s)" and d: "historyInv (redo s)"
    using inv by (simp_all add: undo_inv redo_inv)
  show "length (history s) \<le> 50" "0 \<le> historyIndex s" "historyIndex s \<le> int (length (history s)) - 1"
    using inv by (simp_all add: historyInv_def)
  show "history (addToHistory (historyIndex s) newRooms s)
           = (let pushed = take (nat (historyIndex s + 1)) (history s) @ [newRooms]
              in if length pushed > 50 then tl pushed else pushed)"
    by (rule addToHistory_push(1) [OF inv])
  show "historyIndex (addToHistory (historyIndex s) newRooms s)
           = int (length (history (addToHistory (historyIndex s) newRooms s))) - 1"
    by (rule addToHistory_push(2) [OF inv])
  show "last (history (addToHistory (historyIndex s) newRooms s)) = newRooms"
    by (rule addToHistory_last)
  show "history (undo s) = history s" "history (redo s) = history s"
    "historyIndex (undo s) = historyIndex s \<or> historyIndex (undo s) = historyIndex s - 1"
    "historyIndex (redo s) = historyIndex s \<or> historyIndex (redo s) = historyIndex s + 1"
    by (rule undo_redo_move)+
  show "0 \<le> historyIndex (undo s)" using u by (simp add: historyInv_def)
  show "historyIndex (redo s) \<le> int (length (history s)) - 1"
    using d undo_redo_move(2) [of s] by (simp add: historyInv_def)
qed

theorem history_capped_witness:
  "reachable [0, 1, 0, - 1] (undo (setRooms 0 (2::nat) True (initHistory 1)))
   \<and> inSync (undo (setRooms 0 (2::nat) True (initHistory 1)))
   \<and> history (undo (setRooms 0 (2::nat) True (initHistory 1))) = [1, 2]
   \<and> historyIndex (undo (setRooms 0 (2::nat) True (initHistory 1))) = 0
   \<and> history (addToHistory 0 3 (undo (setRooms 0 (2::nat) True (initHistory 1)))) = [1, 3]
   \<and> historyIndex (redo (undo (setRooms 0 (2::nat) True (initHistory 1)))) = 1"
proof -
  have "reachable (historyIndex (undo (setRooms 0 (2::nat) True (initHistory 1))) # [1, 0, - 1])
          (undo (setRooms 0 (2::nat) True (initHistory 1)))"
    by (rule reachable.r_undo [OF run1])
  then have r: "reachable [0, 1, 0, - 1] (undo (setRooms 0 (2::nat) True (initHistory 1)))"
    by (simp add: undo_def setRooms_def addToHistory_def initHistory_def slice0_def Let_def)
  have "inSync (setRooms (historyIndex (initHistory (1::nat))) (2::nat) True (initHistory 1))"
    by (rule inSync.s_set [OF inSync.s_mount])
  then have "inSync (setRooms 0 (2::nat) True (initHistory 1))" by (simp add: initHistory_def)
  then have i: "inSync (undo (setRooms 0 (2::nat) True (initHistory 1)))" by (rule inSync.s_undo)
  show ?thesis
    using r i history_capped [of "[0, 1, 0, - 1]" "undo (setRooms 0 (2::nat) True (initHistory 1))" 3]
    by (simp add: undo_def redo_def setRooms_def addToHistory_def initHistory_def slice0_def Let_def)
qed

text \<open>
  The claim as stated fails in two states of the component.  Before the mount effect
  has run, the buffer is empty and the cursor is -1: there is no snapshot to point at.
  And a push through a closure that captured an older index truncates the buffer with
  that index but increments the current cursor: from the buffer \<open>[1, 2]\<close> with the
  cursor on 2, a push of 3 with the captured index 0 leaves the buffer \<open>[1, 3]\<close> and
  the cursor 2, one past the last entry.
\<close>

theorem history_cursor_escapes:
  "reachable [- 1] (beforeMount ([]::nat list))
   \<and> history (beforeMount ([]::nat list)) = []
   \<and> historyIndex (beforeMount ([]::nat list)) = - 1
   \<and> \<not> 0 \<le> historyIndex (beforeMount ([]::nat list))
   \<and> reachable [2, 1, 0, - 1] (setRooms 0 (3::nat) True (setRooms 0 2 True (initHistory 1)))
   \<and> history (setRooms 0 (3::nat) True (setRooms 0 2 True (initHistory 1))) = [1, 3]
   \<and> historyIndex (setRooms 0 (3::nat) True (setRooms 0 2 True (initHistory 1))) = 2
   \<and> \<not> historyIndex (setRooms 0 (3::nat) True (setRooms 0 2 True (initHistory 1)))
         \<le> int (length (history (setRooms 0 (3::nat) True (setRooms 0 2 True (initHistory 1))))) - 1"
  using run2 reachable.r_first [of "[]::nat list"]
  by (simp add: setRooms_def addToHistory_def initHistory_def beforeMount_def slice0_def Let_def)

section \<open>Properties of binary64 rounding\<close>

lemma roundEven_int [simp]: "roundEven (real_of_int j) = j"
proof -
  have "\<lfloor>real_of_int j + 1/2\<rfloor> = j" by linarith
  moreover have "real_of_int j \<noteq> real_of_int j + 1/2" by simp
  ultimately show ?thesis by (simp add: roundEven_def Let_def)
qed

lemma roundEven_ge: "real_of_int j \<le> r \<Longrightarrow> j \<le> roundEven r"
proof -
  assume a: "real_of_int j \<le> r"
  let ?n = "\<lfloor>r + 1/2\<rfloor>"
  have n: "j \<le> ?n" using a by linarith
  show ?thesis
  proof (cases "real_of_int ?n = r + 1/2 \<and> odd ?n")
    case True
    then have "real_of_int j \<le> real_of_int ?n - 1/2" using a by linarith
    then have "j \<le> ?n - 1" by linarith
    then show ?thesis using True by (simp add: roundEven_def Let_def)
  next
    case False
    then show ?thesis using n by (auto simp: roundEven_def Let_def)
  qed
qed

lemma roundEven_le: "r \<le> real_of_int j \<Longrightarrow> roundEven r \<le> j"
proof -
  assume a: "r \<le> real_of_int j"
  let ?n = "\<lfloor>r + 1/2\<rfloor>"
  have n: "?n \<le> j" using a by linarith
  show ?thesis using n by (auto simp: roundEven_def Let_def)
qed

lemma ulpExp_bounds:
  assumes "x \<noteq> 0"
  shows "2 powi (ulpExp x + 52) \<le> \<bar>x\<bar>" and "\<bar>x\<bar> < 2 powi (ulpExp x + 53)"
proof -
  have pos: "0 < \<bar>x\<bar>" using assms by simp
  let ?n = "\<lfloor>log 2 \<bar>x\<bar>\<rfloor>"
  have "(real_of_int ?n \<le> log 2 \<bar>x\<bar>) = (2 powr real_of_int ?n \<le> \<bar>x\<bar>)"
    using pos by (intro le_log_iff) simp_all
  then have lo: "2 powr real_of_int ?n \<le> \<bar>x\<bar>" by simp
  have "2 powr real_of_int ?n = 2 powi ?n" by (rule powr_real_of_int') simp_all
  then show "2 powi (ulpExp x + 52) \<le> \<bar>x\<bar>" using lo by (simp add: ulpExp_def)
  have "(log 2 \<bar>x\<bar> < real_of_int (?n + 1)) = (\<bar>x\<bar> < 2 powr real_of_int (?n + 1))"
    using pos by (intro log_less_iff) simp_all
  moreover have "log 2 \<bar>x\<bar> < real_of_int (?n + 1)" by linarith
  ultimately have hi: "\<bar>x\<bar> < 2 powr real_of_int (?n + 1)" by blast
  have p2: "2 powr real_of_int (?n + 1) = 2 powi (?n + 1)" by (rule powr_real_of_int') simp_all
  have eq: "ulpExp x + 53 = ?n + 1" by (simp add: ulpExp_def)
  from hi have "\<bar>x\<bar> < 2 powi (?n + 1)" by (simp only: p2)
  then show "\<bar>x\<bar> < 2 powi (ulpExp x + 53)" by (simp only: eq)
qed

lemma powi_mono: "a \<le> b \<Longrightarrow> (2::real) powi a \<le> 2 powi b"
  by (rule power_int_increasing) simp_all

lemma powi_pos [simp]: "0 < (2::real) powi a"
  by (simp add: zero_less_power_int)

lemma powi_split: "(2::real) powi (a + b) = 2 powi a * 2 powi b"
  by (simp add: power_int_add)

lemma powi_nat: "0 \<le> k \<Longrightarrow> (2::real) powi k = real_of_int (2 ^ nat k)"
  by (simp add: power_int_def)

text \<open>A double whose exponent is at least e is an integer multiple of 2^e.\<close>

lemma double_multiple:
  assumes "e \<le> k"
  shows "real_of_int m * 2 powi k / 2 powi e = real_of_int (m * 2 ^ nat (k - e))"
proof -
  have "(2::real) powi k = 2 powi (k - e) * 2 powi e"
    using powi_split [of "k - e" e] by simp
  moreover have "(2::real) powi (k - e) = real_of_int (2 ^ nat (k - e))"
    using assms by (intro powi_nat) simp
  ultimately show ?thesis by simp
qed

lemma small_double:
  assumes "\<bar>m\<bar> < 2 ^ 53" "k < e"
  shows "\<bar>real_of_int m * 2 powi k\<bar> < 2 powi (e + 52)"
proof -
  have "\<bar>real_of_int m\<bar> < 2 ^ 53" using assms(1)
    by (metis of_int_abs of_int_less_numeral_power_cancel_iff)
  then have "\<bar>real_of_int m * 2 powi k\<bar> < 2 ^ 53 * 2 powi k"
    by (simp add: abs_mult)
  also have "\<dots> = 2 powi (k + 53)" by (simp add: powi_split)
  also have "\<dots> \<le> 2 powi (e + 52)" using assms(2) by (intro powi_mono) simp
  finally show ?thesis .
qed

lemma scaled_mono: "j \<le> R \<Longrightarrow> real_of_int j * 2 powi e \<le> real_of_int R * 2 powi e"
  by (rule mult_right_mono) simp_all

lemma half_range:
  "real_of_int (2 ^ 52) * 2 powi e = 2 powi (e + 52)"
  "real_of_int (- (2 ^ 52)) * 2 powi e = - (2 powi (e + 52))"
  by (simp_all add: powi_split)

lemma fl_ge:
  assumes "isDouble g" "g \<le> x"
  shows "g \<le> fl x"
proof (cases "x = 0")
  case True
  then show ?thesis using assms(2) by (simp add: fl_def)
next
  case False
  let ?e = "ulpExp x"
  let ?R = "roundEven (x / 2 powi ?e)"
  have flx: "fl x = real_of_int ?R * 2 powi ?e" using False by (simp add: fl_def)
  obtain m k where m: "\<bar>m\<bar> < 2 ^ 53" and g: "g = real_of_int m * 2 powi k"
    using assms(1) unfolding isDouble_def by blast
  show ?thesis
  proof (cases "?e \<le> k")
    case True
    let ?j = "m * 2 ^ nat (k - ?e)"
    have gj: "g / 2 powi ?e = real_of_int ?j" unfolding g using True by (rule double_multiple)
    have "g / 2 powi ?e \<le> x / 2 powi ?e" using assms(2) by (simp add: divide_right_mono)
    then have "?j \<le> ?R" unfolding gj by (rule roundEven_ge)
    then have ineq: "real_of_int ?j * 2 powi ?e \<le> real_of_int ?R * 2 powi ?e"
      by (rule scaled_mono)
    have gj': "real_of_int ?j * 2 powi ?e = g" using gj by (simp add: field_simps)
    show ?thesis using ineq unfolding flx gj' .
  next
    case False
    then have small: "\<bar>g\<bar> < 2 powi (?e + 52)" unfolding g using m by (intro small_double) simp_all
    have b: "2 powi (?e + 52) \<le> \<bar>x\<bar>" using \<open>x \<noteq> 0\<close> by (rule ulpExp_bounds)
    show ?thesis
    proof (cases "0 < x")
      case True
      have "2 powi (?e + 52) / 2 powi ?e \<le> x / 2 powi ?e"
        using b True by (simp add: divide_right_mono)
      moreover have "(2::real) powi (?e + 52) / 2 powi ?e = real_of_int (2 ^ 52)"
        by (simp add: powi_split)
      ultimately have "real_of_int (2 ^ 52) \<le> x / 2 powi ?e" by simp
      then have "2 ^ 52 \<le> ?R" by (rule roundEven_ge)
      then have "real_of_int (2 ^ 52) * 2 powi ?e \<le> real_of_int ?R * 2 powi ?e"
        by (rule scaled_mono)
      then have "2 powi (?e + 52) \<le> fl x" unfolding half_range flx .
      then show ?thesis using small by linarith
    next
      case False
      then have "x < 0" using \<open>x \<noteq> 0\<close> by simp
      then have "\<bar>x\<bar> \<le> \<bar>g\<bar>" using assms(2) by simp
      then show ?thesis using small b by linarith
    qed
  qed
qed

lemma fl_le:
  assumes "isDouble g" "x \<le> g"
  shows "fl x \<le> g"
proof (cases "x = 0")
  case True
  then show ?thesis using assms(2) by (simp add: fl_def)
next
  case False
  let ?e = "ulpExp x"
  let ?R = "roundEven (x / 2 powi ?e)"
  have flx: "fl x = real_of_int ?R * 2 powi ?e" using False by (simp add: fl_def)
  obtain m k where m: "\<bar>m\<bar> < 2 ^ 53" and g: "g = real_of_int m * 2 powi k"
    using assms(1) unfolding isDouble_def by blast
  show ?thesis
  proof (cases "?e \<le> k")
    case True
    let ?j = "m * 2 ^ nat (k - ?e)"
    have gj: "g / 2 powi ?e = real_of_int ?j" unfolding g using True by (rule double_multiple)
    have "x / 2 powi ?e \<le> g / 2 powi ?e" using assms(2) by (simp add: divide_right_mono)
    then have "?R \<le> ?j" unfolding gj by (rule roundEven_le)
    then have ineq: "real_of_int ?R * 2 powi ?e \<le> real_of_int ?j * 2 powi ?e"
      by (rule scaled_mono)
    have gj': "real_of_int ?j * 2 powi ?e = g" using gj by (simp add: field_simps)
    show ?thesis using ineq unfolding flx gj' .
  next
    case False
    then have small: "\<bar>g\<bar> < 2 powi (?e + 52)" unfolding g using m by (intro small_double) simp_all
    have b: "2 powi (?e + 52) \<le> \<bar>x\<bar>" using \<open>x \<noteq> 0\<close> by (rule ulpExp_bounds)
    show ?thesis
    proof (cases "x < 0")
      case True
      have "x / 2 powi ?e \<le> - (2 powi (?e + 52) / 2 powi ?e)"
        using b True by (simp add: field_simps)
      moreover have "(2::real) powi (?e + 52) / 2 powi ?e = real_of_int (2 ^ 52)"
        by (simp add: powi_split)
      ultimately have "x / 2 powi ?e \<le> real_of_int (- (2 ^ 52))" by simp
      then have "?R \<le> - (2 ^ 52)" by (rule roundEven_le)
      then have "real_of_int ?R * 2 powi ?e \<le> real_of_int (- (2 ^ 52)) * 2 powi ?e"
        by (rule scaled_mono)
      then have "fl x \<le> - (2 powi (?e + 52))" unfolding half_range flx .
      then show ?thesis using small by linarith
    next
      case False
      then have "0 < x" using \<open>x \<noteq> 0\<close> by simp
      then have "\<bar>x\<bar> \<le> \<bar>g\<bar>" using assms(2) by simp
      then show ?thesis using small b by linarith
    qed
  qed
qed

lemma fl_id: "isDouble g \<Longrightarrow> fl g = g"
  using fl_ge [of g g] fl_le [of g g] by simp

lemma fl_0 [simp]: "fl 0 = 0"
  by (simp add: fl_def)

lemma isDouble_int: "\<bar>n\<bar> < 2 ^ 53 \<Longrightarrow> isDouble (real_of_int n)"
  unfolding isDouble_def by (rule exI [of _ n], rule exI [of _ 0]) simp

lemma isDouble_dyadic: "\<bar>n\<bar> < 2 ^ 53 \<Longrightarrow> isDouble (real_of_int n / 2 ^ k)"
  unfolding isDouble_def
  by (rule exI [of _ n], rule exI [of _ "- int k"]) (simp add: power_int_minus field_simps)

lemma isDouble_fl: "isDouble (fl x)"
proof (cases "x = 0")
  case True
  then show ?thesis using isDouble_int [of 0] by simp
next
  case False
  let ?e = "ulpExp x"
  let ?R = "roundEven (x / 2 powi ?e)"
  have flx: "fl x = real_of_int ?R * 2 powi ?e" using False by (simp add: fl_def)
  have "\<bar>x\<bar> < 2 powi (?e + 53)" using False by (rule ulpExp_bounds)
  then have "\<bar>x\<bar> / 2 powi ?e < 2 powi (?e + 53) / 2 powi ?e"
    by (simp add: divide_strict_right_mono)
  moreover have "(2::real) powi (?e + 53) / 2 powi ?e = real_of_int (2 ^ 53)"
    by (simp add: powi_split)
  ultimately have b: "\<bar>x\<bar> / 2 powi ?e < real_of_int (2 ^ 53)" by simp
  have q: "x / 2 powi ?e \<le> \<bar>x\<bar> / 2 powi ?e" "- (\<bar>x\<bar> / 2 powi ?e) \<le> x / 2 powi ?e"
    by (simp_all add: field_simps)
  have "x / 2 powi ?e \<le> real_of_int (2 ^ 53)" using b q(1) by linarith
  then have up: "?R \<le> 2 ^ 53" by (rule roundEven_le)
  have "real_of_int (- (2 ^ 53)) \<le> x / 2 powi ?e" using b q(2) by simp
  then have lo: "- (2 ^ 53) \<le> ?R" by (rule roundEven_ge)
  consider "\<bar>?R\<bar> < 2 ^ 53" | "?R = 2 ^ 53" | "?R = - (2 ^ 53)"
    using up lo by linarith
  then show ?thesis
  proof cases
    case 1
    then show ?thesis unfolding isDouble_def flx by blast
  next
    case 2
    have "fl x = real_of_int (2 ^ 52) * 2 powi (?e + 1)"
      unfolding flx 2 by (simp add: powi_split)
    moreover have "\<bar>(2::int) ^ 52\<bar> < 2 ^ 53" by simp
    ultimately show ?thesis unfolding isDouble_def by blast
  next
    case 3
    have "fl x = real_of_int (- (2 ^ 52)) * 2 powi (?e + 1)"
      unfolding flx 3 by (simp add: powi_split)
    moreover have "\<bar>- ((2::int) ^ 52)\<bar> < 2 ^ 53" by simp
    ultimately show ?thesis unfolding isDouble_def by blast
  qed
qed

lemma fl_fl [simp]: "fl (fl x) = fl x"
  by (rule fl_id) (rule isDouble_fl)

lemma powi_less_D: "(2::real) powi a < 2 powi b \<Longrightarrow> a < b"
proof (rule ccontr)
  assume l: "(2::real) powi a < 2 powi b" and "\<not> a < b"
  then have "b \<le> a" by simp
  then have "(2::real) powi b \<le> 2 powi a" by (rule powi_mono)
  then show False using l by simp
qed

lemma ulpExp_unique:
  assumes "2 powi (e + 52) \<le> \<bar>x\<bar>" "\<bar>x\<bar> < 2 powi (e + 53)"
  shows "ulpExp x = e"
proof -
  have "0 < \<bar>x\<bar>" using assms(1) powi_pos [of "e + 52"] by linarith
  then have nz: "x \<noteq> 0" by simp
  have "2 powi (e + 52) < (2::real) powi (ulpExp x + 53)"
    using assms(1) ulpExp_bounds(2) [OF nz] by linarith
  then have "e + 52 < ulpExp x + 53" by (rule powi_less_D)
  moreover have "2 powi (ulpExp x + 52) < (2::real) powi (e + 53)"
    using assms(2) ulpExp_bounds(1) [OF nz] by linarith
  then have "ulpExp x + 52 < e + 53" by (rule powi_less_D)
  ultimately show ?thesis by linarith
qed

text \<open>Evaluation: with the unit in the last place u = 2^e such that 2^52 u <= |x| < 2^53 u.\<close>

lemma fl_eval:
  assumes "u = 2 powi e" "2 ^ 52 * u \<le> \<bar>x\<bar>" "\<bar>x\<bar> < 2 ^ 53 * u"
  shows "fl x = real_of_int (roundEven (x / u)) * u"
proof -
  have "2 powi (e + 52) \<le> \<bar>x\<bar>" "\<bar>x\<bar> < 2 powi (e + 53)"
    using assms by (simp_all add: powi_split mult.commute)
  then have e: "ulpExp x = e" by (rule ulpExp_unique)
  have "0 < 2 ^ 52 * u" unfolding assms(1) by simp
  then have "0 < \<bar>x\<bar>" using assms(2) by linarith
  then have "x \<noteq> 0" by simp
  then show ?thesis by (simp add: fl_def e assms(1))
qed

lemma fl_int: "\<bar>n\<bar> < 2 ^ 53 \<Longrightarrow> fl (real_of_int n) = real_of_int n"
  by (rule fl_id) (rule isDouble_int)

lemma fl_numeral [simp]:
  "(numeral n :: int) < 2 ^ 53 \<Longrightarrow> fl (numeral n) = numeral n"
  "(numeral n :: int) < 2 ^ 53 \<Longrightarrow> fl (- numeral n) = - numeral n"
  "fl 1 = 1" "fl (- 1) = - 1"
  using fl_int [of "numeral n"] fl_int [of "- numeral n"] fl_int [of 1] fl_int [of "- 1"]
  by simp_all

lemma fl_dyadic: "\<bar>n\<bar> < 2 ^ 53 \<Longrightarrow> fl (real_of_int n / 2 ^ k) = real_of_int n / 2 ^ k"
  by (rule fl_id) (rule isDouble_dyadic)

text \<open>Sums, differences and products of integers stay exact while they are below 2^53.\<close>

lemma fl_int_le: "\<bar>n\<bar> \<le> 2 ^ 52 \<Longrightarrow> fl (real_of_int n) = real_of_int n"
  by (rule fl_int) simp

section \<open>Degenerate polygons in binary64\<close>

text \<open>
  The binary64 numbers nearest to 1/3 and to -2/3, and the two abscissas that
  \<open>isPointInPolygon\<close> computes for the query point (10/30, 1) and the polygon
  \<open>[(0,0), (1,3)]\<close>.
\<close>

lemma fl_third: "fl (1 / 3) = 6004799503160661 / 18014398509481984"
proof -
  have u: "(1 / 18014398509481984 :: real) = 2 powi (- 54)"
    by (simp add: power_int_minus)
  have "fl (1/3) = real_of_int (roundEven ((1/3) / (1 / 18014398509481984))) * (1 / 18014398509481984)"
    by (rule fl_eval [OF u]) simp_all
  also have "roundEven ((1/3) / (1 / 18014398509481984)) = 6004799503160661"
    by (simp add: roundEven_def Let_def)
  finally show ?thesis by simp
qed

lemma fl_minus_two_thirds: "fl (- (2 / 3)) = - (6004799503160661 / 9007199254740992)"
proof -
  have u: "(1 / 9007199254740992 :: real) = 2 powi (- 53)"
    by (simp add: power_int_minus)
  have "fl (- (2/3)) = real_of_int (roundEven ((- (2/3)) / (1 / 9007199254740992))) * (1 / 9007199254740992)"
    by (rule fl_eval [OF u]) simp_all
  also have "roundEven ((- (2/3)) / (1 / 9007199254740992)) = - 6004799503160661"
    by (simp add: roundEven_def Let_def)
  finally show ?thesis by simp
qed

lemma fl_near_third:
  "fl (3002399751580331 / 9007199254740992) = 3002399751580331 / 9007199254740992"
  "fl (6004799503160661 / 18014398509481984) = 6004799503160661 / 18014398509481984"
  using fl_dyadic [of 3002399751580331 53] fl_dyadic [of 6004799503160661 54] by simp_all

lemma abscissa_forward:
  "abscissa64 \<lparr>px = 6004799503160661 / 18014398509481984, py = 1\<rparr>
      \<lparr>px = 0, py = 0\<rparr> \<lparr>px = 1, py = 3\<rparr>
   = 6004799503160661 / 18014398509481984"
  by (simp add: abscissa64_def fadd_def fsub_def fmul_def fdiv_def fl_third fl_near_third)

lemma abscissa_backward:
  "abscissa64 \<lparr>px = 6004799503160661 / 18014398509481984, py = 1\<rparr>
      \<lparr>px = 1, py = 3\<rparr> \<lparr>px = 0, py = 0\<rparr>
   = 3002399751580331 / 9007199254740992"
  by (simp add: abscissa64_def fadd_def fsub_def fmul_def fdiv_def fl_minus_two_thirds fl_near_third)

lemma third_point_inside:
  "isPointInPolygon64 \<lparr>px = 6004799503160661 / 18014398509481984, py = 1\<rparr>
      [\<lparr>px = 0, py = 0\<rparr>, \<lparr>px = 1, py = 3\<rparr>]"
  by (simp add: isPointInPolygon64_def pipStep64_def Let_def upt_rec abscissa_forward abscissa_backward)

text \<open>0.1 and 0.9 as doubles.\<close>

lemma fl_tenth_nine_tenths:
  "fl (29206669829258407752355848084521 / 324518553658426726783156020576256) = 6485183463413515 / 72057594037927936"
proof -
  let ?x = "29206669829258407752355848084521 / 324518553658426726783156020576256 :: real"
  have u: "(1 / 72057594037927936 :: real) = 2 powi (- 56)"
    by (simp add: power_int_minus)
  have "fl ?x = real_of_int (roundEven (?x / (1 / 72057594037927936))) * (1 / 72057594037927936)"
    by (rule fl_eval [OF u]) simp_all
  also have "roundEven (?x / (1 / 72057594037927936)) = 6485183463413515"
    by (simp add: roundEven_def Let_def)
  finally show ?thesis by simp
qed

lemma fl_tenth_squared:
  "fl (12980742146337070512478121581609 / 1298074214633706907132624082305024) = 1441151880758559 / 144115188075855872"
proof -
  let ?x = "12980742146337070512478121581609 / 1298074214633706907132624082305024 :: real"
  have u: "(1 / 576460752303423488 :: real) = 2 powi (- 59)"
    by (simp add: power_int_minus)
  have "fl ?x = real_of_int (roundEven (?x / (1 / 576460752303423488))) * (1 / 576460752303423488)"
    by (rule fl_eval [OF u]) simp_all
  also have "roundEven (?x / (1 / 576460752303423488)) = 5764607523034236"
    by (simp add: roundEven_def Let_def)
  finally show ?thesis by simp
qed

lemma fl_difference:
  "fl (11529215046068471 / 144115188075855872) = 1441151880758559 / 18014398509481984"
proof -
  let ?x = "11529215046068471 / 144115188075855872 :: real"
  have u: "(1 / 72057594037927936 :: real) = 2 powi (- 56)"
    by (simp add: power_int_minus)
  have "fl ?x = real_of_int (roundEven (?x / (1 / 72057594037927936))) * (1 / 72057594037927936)"
    by (rule fl_eval [OF u]) simp_all
  also have "roundEven (?x / (1 / 72057594037927936)) = 5764607523034236"
    by (simp add: roundEven_def Let_def)
  finally show ?thesis by simp
qed

lemma fl_sum_back:
  "fl (12970366926827031 / 144115188075855872) = 1621295865853379 / 18014398509481984"
proof -
  let ?x = "12970366926827031 / 144115188075855872 :: real"
  have u: "(1 / 72057594037927936 :: real) = 2 powi (- 56)"
    by (simp add: power_int_minus)
  have "fl ?x = real_of_int (roundEven (?x / (1 / 72057594037927936))) * (1 / 72057594037927936)"
    by (rule fl_eval [OF u]) simp_all
  also have "roundEven (?x / (1 / 72057594037927936)) = 6485183463413516"
    by (simp add: roundEven_def Let_def)
  finally show ?thesis by simp
qed

lemma fl_residue:
  "fl (1 / 72057594037927936) = 1 / 72057594037927936"
  "fl (1 / 144115188075855872) = 1 / 144115188075855872"
  "fl (6485183463413515 / 72057594037927936) = 6485183463413515 / 72057594037927936"
  using fl_dyadic [of 1 56] fl_dyadic [of 1 57] fl_dyadic [of 6485183463413515 56] by simp_all

lemma area_residue:
  "calculatePolygonArea64
     [\<lparr>px = 3602879701896397 / 36028797018963968, py = 3602879701896397 / 36028797018963968\<rparr>,
      \<lparr>px = 3602879701896397 / 36028797018963968, py = 8106479329266893 / 9007199254740992\<rparr>]
   = 1 / 144115188075855872"
proof -
  let ?a = "\<lparr>px = 3602879701896397 / 36028797018963968, py = 3602879701896397 / 36028797018963968 :: real\<rparr>"
  let ?b = "\<lparr>px = 3602879701896397 / 36028797018963968, py = 8106479329266893 / 9007199254740992 :: real\<rparr>"
  have s0: "areaStep64 [?a, ?b] 0 0 = 1441151880758559 / 18014398509481984"
    by (simp add: areaStep64_def fadd_def fsub_def fmul_def fl_tenth_nine_tenths fl_tenth_squared
          fl_residue fl_difference)
  have s1: "areaStep64 [?a, ?b] (Suc 0) (1441151880758559 / 18014398509481984)
              = 1 / 72057594037927936"
    by (simp add: areaStep64_def fadd_def fsub_def fmul_def fl_tenth_nine_tenths fl_tenth_squared
          fl_sum_back fl_residue)
  have f: "fold (areaStep64 [?a, ?b]) [0..<length [?a, ?b]] 0 = 1 / 72057594037927936"
    by (simp add: upt_rec s0 s1)
  show ?thesis
    unfolding calculatePolygonArea64_def f by (simp add: fdiv_def fl_residue)
qed

lemma fl_tenth: "fl (1 / 10) = 3602879701896397 / 36028797018963968"
proof -
  have u: "(1 / 72057594037927936 :: real) = 2 powi (- 56)"
    by (simp add: power_int_minus)
  have "fl (1/10) = real_of_int (roundEven ((1/10) / (1 / 72057594037927936))) * (1 / 72057594037927936)"
    by (rule fl_eval [OF u]) simp_all
  also have "roundEven ((1/10) / (1 / 72057594037927936)) = 7205759403792794"
    by (simp add: roundEven_def Let_def)
  finally show ?thesis by simp
qed

lemma fl_nine_tenths: "fl (9 / 10) = 8106479329266893 / 9007199254740992"
proof -
  have u: "(1 / 9007199254740992 :: real) = 2 powi (- 53)"
    by (simp add: power_int_minus)
  have "fl (9/10) = real_of_int (roundEven ((9/10) / (1 / 9007199254740992))) * (1 / 9007199254740992)"
    by (rule fl_eval [OF u]) simp_all
  also have "roundEven ((9/10) / (1 / 9007199254740992)) = 8106479329266893"
    by (simp add: roundEven_def Let_def)
  finally show ?thesis by simp
qed

text \<open>Polygons of grid points.\<close>

lemma onGrid_int: "onGrid v \<Longrightarrow> \<exists>n. v = real_of_int n"
  unfolding onGrid_def GRID_SIZE_def by (metis div_by_1 mult.right_neutral)

lemma smallGridPoint_ints:
  assumes "smallGridPoint p"
  obtains m n where "px p = real_of_int m" "\<bar>m\<bar> \<le> 2 ^ 25" "py p = real_of_int n" "\<bar>n\<bar> \<le> 2 ^ 25"
proof -
  obtain m n where m: "px p = real_of_int m" and n: "py p = real_of_int n"
    using assms onGrid_int unfolding smallGridPoint_def by blast
  have "real_of_int \<bar>m\<bar> \<le> 2 ^ 25" "real_of_int \<bar>n\<bar> \<le> 2 ^ 25"
    using assms m n unfolding smallGridPoint_def by simp_all
  then have "\<bar>m\<bar> \<le> 2 ^ 25" "\<bar>n\<bar> \<le> 2 ^ 25"
    by (simp_all only: of_int_le_numeral_power_cancel_iff)
  then show ?thesis using m n that by blast
qed

lemma int_product_bound:
  fixes a b :: int
  assumes "\<bar>a\<bar> \<le> 2 ^ 25" "\<bar>b\<bar> \<le> 2 ^ 25"
  shows "\<bar>a * b\<bar> \<le> 2 ^ 50"
proof -
  have "\<bar>a * b\<bar> = \<bar>a\<bar> * \<bar>b\<bar>" by (rule abs_mult)
  also have "\<dots> \<le> 2 ^ 25 * 2 ^ 25" using assms by (intro mult_mono) simp_all
  finally show ?thesis by simp
qed

lemma fmul_ints:
  assumes "\<bar>a\<bar> \<le> 2 ^ 25" "\<bar>b\<bar> \<le> 2 ^ 25"
  shows "fmul (real_of_int a) (real_of_int b) = real_of_int (a * b)"
proof -
  have "\<bar>a * b\<bar> \<le> 2 ^ 50" using assms by (rule int_product_bound)
  then have "fl (real_of_int (a * b)) = real_of_int (a * b)" by (intro fl_int_le) simp
  then show ?thesis by (simp add: fmul_def)
qed

lemma area_two_grid_points:
  assumes "smallGridPoint a" "smallGridPoint b"
  shows "calculatePolygonArea64 [a, b] = 0"
proof -
  obtain xa ya where a: "px a = real_of_int xa" "\<bar>xa\<bar> \<le> 2 ^ 25" "py a = real_of_int ya" "\<bar>ya\<bar> \<le> 2 ^ 25"
    using assms(1) by (rule smallGridPoint_ints)
  obtain xb yb where b: "px b = real_of_int xb" "\<bar>xb\<bar> \<le> 2 ^ 25" "py b = real_of_int yb" "\<bar>yb\<bar> \<le> 2 ^ 25"
    using assms(2) by (rule smallGridPoint_ints)
  have pa: "\<bar>xa * yb\<bar> \<le> 2 ^ 50" and pb: "\<bar>xb * ya\<bar> \<le> 2 ^ 50"
    using int_product_bound [OF a(2) b(4)] int_product_bound [OF b(2) a(4)] by simp_all
  define A B where "A = real_of_int (xa * yb)" and "B = real_of_int (xb * ya)"
  have m1: "fmul (px a) (py b) = A" unfolding a b A_def using a(2) b(4) by (rule fmul_ints)
  have m2: "fmul (px b) (py a) = B" unfolding a b B_def using b(2) a(4) by (rule fmul_ints)
  have "fl (real_of_int (xa * yb - xb * ya)) = real_of_int (xa * yb - xb * ya)"
    using pa pb by (intro fl_int_le) simp
  then have d: "fl (A - B) = A - B" by (simp add: A_def B_def)
  have e: "fl A = A" unfolding A_def using pa by (intro fl_int_le) simp
  have s0: "areaStep64 [a, b] 0 0 = A - B"
    by (simp add: areaStep64_def fadd_def fsub_def m1 m2 d e)
  have s1: "areaStep64 [a, b] (Suc 0) (A - B) = 0"
    by (simp add: areaStep64_def fadd_def fsub_def m1 m2 e)
  have f: "fold (areaStep64 [a, b]) [0..<length [a, b]] 0 = 0"
    by (simp add: upt_rec s0 s1)
  show ?thesis unfolding calculatePolygonArea64_def f by (simp add: fdiv_def)
qed

lemma int_diff_bound:
  fixes a b :: int
  assumes "\<bar>a\<bar> \<le> 2 ^ 25" "\<bar>b\<bar> \<le> 2 ^ 25"
  shows "\<bar>a - b\<bar> \<le> 2 ^ 26"
  using assms by simp

lemma int_product_bound26:
  fixes a b :: int
  assumes "\<bar>a\<bar> \<le> 2 ^ 26" "\<bar>b\<bar> \<le> 2 ^ 26"
  shows "\<bar>a * b\<bar> \<le> 2 ^ 52"
proof -
  have "\<bar>a * b\<bar> = \<bar>a\<bar> * \<bar>b\<bar>" by (rule abs_mult)
  also have "\<dots> \<le> 2 ^ 26 * 2 ^ 26" using assms by (intro mult_mono) simp_all
  finally show ?thesis by simp
qed

lemma fsub_ints:
  assumes "\<bar>a\<bar> \<le> 2 ^ 25" "\<bar>b\<bar> \<le> 2 ^ 25"
  shows "fsub (real_of_int a) (real_of_int b) = real_of_int (a - b)"
proof -
  have "\<bar>a - b\<bar> \<le> 2 ^ 26" using assms by (rule int_diff_bound)
  then have "fl (real_of_int (a - b)) = real_of_int (a - b)" by (intro fl_int_le) simp
  then show ?thesis by (simp add: fsub_def)
qed

text \<open>A positive quotient of integers is at least one over the absolute denominator.\<close>

lemma quotient_gap:
  fixes M D :: int
  assumes "0 < real_of_int M / real_of_int D" "\<bar>D\<bar> \<le> 2 ^ 26"
  shows "1 / 2 ^ 26 \<le> real_of_int M / real_of_int D"
proof -
  have D0: "D \<noteq> 0" using assms(1) by auto
  have eq: "real_of_int M / real_of_int D = real_of_int \<bar>M\<bar> / real_of_int \<bar>D\<bar>"
    using assms(1) by (metis abs_divide abs_of_pos of_int_abs)
  have "M \<noteq> 0" using assms(1) by auto
  then have M1: "1 \<le> real_of_int \<bar>M\<bar>" by (metis abs_ge_zero abs_zero dual_order.antisym  not_less of_int_1_le_iff zless_imp_add1_zle zero_less_abs_iff add_0)
  have Dp: "0 < real_of_int \<bar>D\<bar>" using D0 by simp
  have Db: "real_of_int \<bar>D\<bar> \<le> 2 ^ 26" using assms(2) by (simp only: of_int_le_numeral_power_cancel_iff)
  have "1 / 2 ^ 26 \<le> 1 / real_of_int \<bar>D\<bar>" using Dp Db by (intro divide_left_mono) simp_all
  also have "\<dots> \<le> real_of_int \<bar>M\<bar> / real_of_int \<bar>D\<bar>" using M1 Dp by (intro divide_right_mono) simp_all
  finally show ?thesis unfolding eq .
qed

lemma isDouble_int_plus_gap:
  assumes "\<bar>k\<bar> \<le> 2 ^ 26"
  shows "isDouble (real_of_int k + 1 / 2 ^ 26)"
proof -
  have "\<bar>k * 2 ^ 26 + 1\<bar> \<le> \<bar>k * 2 ^ 26\<bar> + 1" by simp
  also have "\<bar>k * 2 ^ 26\<bar> = \<bar>k\<bar> * 2 ^ 26" by (simp add: abs_mult)
  also have "\<bar>k\<bar> * 2 ^ 26 + 1 \<le> 2 ^ 26 * 2 ^ 26 + 1" using assms by simp
  finally have "\<bar>k * 2 ^ 26 + 1\<bar> < 2 ^ 53" by simp
  then have "isDouble (real_of_int (k * 2 ^ 26 + 1) / 2 ^ 26)" by (rule isDouble_dyadic)
  moreover have "real_of_int (k * 2 ^ 26 + 1) / 2 ^ 26 = real_of_int k + 1 / 2 ^ 26"
    by (simp add: field_simps)
  ultimately show ?thesis by (simp only:)
qed

text \<open>
  With integer coordinates below 2^25 the rounded abscissa lies on the same side of an
  integer \<open>x\<close> as the exact one.
\<close>

lemma rounded_abscissa_side:
  fixes N D xi x :: int
  assumes D: "D \<noteq> 0" "\<bar>D\<bar> \<le> 2 ^ 26" and xi: "\<bar>xi\<bar> \<le> 2 ^ 25" and x: "\<bar>x\<bar> \<le> 2 ^ 25"
  shows "real_of_int x < fl (fl (real_of_int N / real_of_int D) + real_of_int xi)
         \<longleftrightarrow> real_of_int x < real_of_int N / real_of_int D + real_of_int xi"
proof
  assume lt: "real_of_int x < real_of_int N / real_of_int D + real_of_int xi"
  define M where "M = N - (x - xi) * D"
  define g :: real where "g = 1 / 2 ^ 26"
  have gpos: "0 < g" by (simp add: g_def)
  have "real_of_int M / real_of_int D = real_of_int N / real_of_int D - real_of_int (x - xi)"
    using D(1) by (simp add: M_def field_simps)
  then have MD: "real_of_int M / real_of_int D
                 = real_of_int N / real_of_int D + real_of_int xi - real_of_int x"
    by simp
  then have "0 < real_of_int M / real_of_int D" using lt by linarith
  then have "1 / 2 ^ 26 \<le> real_of_int M / real_of_int D" using D(2) by (rule quotient_gap)
  then have "g \<le> real_of_int M / real_of_int D" unfolding g_def .
  then have "real_of_int x - real_of_int xi + g \<le> real_of_int N / real_of_int D"
    using MD by linarith
  then have g1: "real_of_int (x - xi) + g \<le> real_of_int N / real_of_int D"
    by (simp only: of_int_diff)
  have "\<bar>x - xi\<bar> \<le> 2 ^ 26" using x xi by simp
  then have "isDouble (real_of_int (x - xi) + g)" unfolding g_def by (rule isDouble_int_plus_gap)
  then have "real_of_int (x - xi) + g \<le> fl (real_of_int N / real_of_int D)"
    using g1 by (rule fl_ge)
  then have "real_of_int x - real_of_int xi + g \<le> fl (real_of_int N / real_of_int D)"
    by (simp only: of_int_diff)
  then have g2: "real_of_int x + g \<le> fl (real_of_int N / real_of_int D) + real_of_int xi"
    by linarith
  have "\<bar>x\<bar> \<le> 2 ^ 26" using x by simp
  then have "isDouble (real_of_int x + g)" unfolding g_def by (rule isDouble_int_plus_gap)
  then have "real_of_int x + g \<le> fl (fl (real_of_int N / real_of_int D) + real_of_int xi)"
    using g2 by (rule fl_ge)
  then show "real_of_int x < fl (fl (real_of_int N / real_of_int D) + real_of_int xi)"
    using gpos by linarith
next
  assume lt: "real_of_int x < fl (fl (real_of_int N / real_of_int D) + real_of_int xi)"
  show "real_of_int x < real_of_int N / real_of_int D + real_of_int xi"
  proof (rule ccontr)
    assume "\<not> real_of_int x < real_of_int N / real_of_int D + real_of_int xi"
    then have le: "real_of_int N / real_of_int D \<le> real_of_int (x - xi)" by simp
    have "\<bar>x - xi\<bar> < 2 ^ 53" using x xi by simp
    then have "isDouble (real_of_int (x - xi))" by (rule isDouble_int)
    then have "fl (real_of_int N / real_of_int D) \<le> real_of_int (x - xi)"
      using le by (rule fl_le)
    then have le2: "fl (real_of_int N / real_of_int D) + real_of_int xi \<le> real_of_int x" by simp
    have "\<bar>x\<bar> < 2 ^ 53" using x by simp
    then have "isDouble (real_of_int x)" by (rule isDouble_int)
    then have "fl (fl (real_of_int N / real_of_int D) + real_of_int xi) \<le> real_of_int x"
      using le2 by (rule fl_le)
    then show False using lt by simp
  qed
qed

lemma abscissa64_grid:
  assumes p: "px p = real_of_int xi" "\<bar>xi\<bar> \<le> 2 ^ 25" "py p = real_of_int yi" "\<bar>yi\<bar> \<le> 2 ^ 25"
    and q: "px q = real_of_int xj" "\<bar>xj\<bar> \<le> 2 ^ 25" "py q = real_of_int yj" "\<bar>yj\<bar> \<le> 2 ^ 25"
    and t: "px point = real_of_int x" "\<bar>x\<bar> \<le> 2 ^ 25" "py point = real_of_int y" "\<bar>y\<bar> \<le> 2 ^ 25"
    and ne: "yi \<noteq> yj"
  shows "px point < abscissa64 point p q
         \<longleftrightarrow> real_of_int x < real_of_int ((xj - xi) * (y - yi)) / real_of_int (yj - yi) + real_of_int xi"
proof -
  have s1: "fsub (px q) (px p) = real_of_int (xj - xi)" unfolding p q using q(2) p(2) by (rule fsub_ints)
  have s2: "fsub (py point) (py p) = real_of_int (y - yi)" unfolding p t using t(4) p(4) by (rule fsub_ints)
  have s3: "fsub (py q) (py p) = real_of_int (yj - yi)" unfolding p q using q(4) p(4) by (rule fsub_ints)
  have b1: "\<bar>xj - xi\<bar> \<le> 2 ^ 26" using q(2) p(2) by (rule int_diff_bound)
  have b2: "\<bar>y - yi\<bar> \<le> 2 ^ 26" using t(4) p(4) by (rule int_diff_bound)
  have b3: "\<bar>yj - yi\<bar> \<le> 2 ^ 26" using q(4) p(4) by (rule int_diff_bound)
  have "\<bar>(xj - xi) * (y - yi)\<bar> \<le> 2 ^ 52" using b1 b2 by (rule int_product_bound26)
  then have "fl (real_of_int ((xj - xi) * (y - yi))) = real_of_int ((xj - xi) * (y - yi))"
    by (rule fl_int_le)
  then have m: "fmul (real_of_int (xj - xi)) (real_of_int (y - yi)) = real_of_int ((xj - xi) * (y - yi))"
    by (simp add: fmul_def)
  have D0: "yj - yi \<noteq> 0" using ne by simp
  have a: "abscissa64 point p q
        = fl (fl (real_of_int ((xj - xi) * (y - yi)) / real_of_int (yj - yi)) + real_of_int xi)"
    unfolding abscissa64_def s1 s2 s3 m unfolding fadd_def fdiv_def p ..
  show ?thesis unfolding a t using D0 b3 p(2) t(2) by (rule rounded_abscissa_side)
qed

lemma same_exact_abscissa:
  fixes xi yi xj yj y :: int
  assumes "yi \<noteq> yj"
  shows "real_of_int ((xj - xi) * (y - yi)) / real_of_int (yj - yi) + real_of_int xi
       = real_of_int ((xi - xj) * (y - yj)) / real_of_int (yi - yj) + real_of_int xj"
proof -
  have "real_of_int (yj - yi) \<noteq> 0" "real_of_int (yi - yj) \<noteq> 0" using assms by simp_all
  then show ?thesis by (simp add: field_simps)
qed

lemma pip_two_grid_points:
  assumes "smallGridPoint a" "smallGridPoint b" "smallGridPoint point"
  shows "\<not> isPointInPolygon64 point [a, b]"
proof -
  obtain xa ya where a: "px a = real_of_int xa" "\<bar>xa\<bar> \<le> 2 ^ 25" "py a = real_of_int ya" "\<bar>ya\<bar> \<le> 2 ^ 25"
    using assms(1) by (rule smallGridPoint_ints)
  obtain xb yb where b: "px b = real_of_int xb" "\<bar>xb\<bar> \<le> 2 ^ 25" "py b = real_of_int yb" "\<bar>yb\<bar> \<le> 2 ^ 25"
    using assms(2) by (rule smallGridPoint_ints)
  obtain x y where t: "px point = real_of_int x" "\<bar>x\<bar> \<le> 2 ^ 25" "py point = real_of_int y" "\<bar>y\<bar> \<le> 2 ^ 25"
    using assms(3) by (rule smallGridPoint_ints)
  define sep where "sep = ((py a > py point) \<noteq> (py b > py point))"
  have same: "sep \<Longrightarrow> (px point < abscissa64 point a b) = (px point < abscissa64 point b a)"
  proof -
    assume sep
    then have ne: "ya \<noteq> yb" unfolding sep_def a b by auto
    then have ne': "yb \<noteq> ya" by simp
    show ?thesis
      unfolding abscissa64_grid [OF a b t ne] abscissa64_grid [OF b a t ne']
      unfolding same_exact_abscissa [OF ne] ..
  qed
  have "isPointInPolygon64 point [a, b]
        = ((sep \<and> px point < abscissa64 point a b) \<noteq> (sep \<and> px point < abscissa64 point b a))"
    by (auto simp: isPointInPolygon64_def pipStep64_def Let_def upt_rec sep_def)
  then show ?thesis using same by auto
qed

lemma pip_short:
  "length polygon < 2 \<Longrightarrow> \<not> isPointInPolygon64 point polygon"
proof -
  assume "length polygon < 2"
  then consider "polygon = []" | p where "polygon = [p]"
    by (cases polygon) (auto simp: length_Suc_conv)
  then show ?thesis
    by cases (simp_all add: isPointInPolygon64_def pipStep64_def Let_def)
qed

lemma pip_two_same_side:
  "(py a > py point) = (py b > py point) \<Longrightarrow> \<not> isPointInPolygon64 point [a, b]"
  by (simp add: isPointInPolygon64_def pipStep64_def Let_def upt_rec)

lemma area_empty: "calculatePolygonArea64 [] = 0"
  by (simp add: calculatePolygonArea64_def fdiv_def)

lemma area_single: "calculatePolygonArea64 [p] = 0"
proof -
  have "areaStep64 [p] 0 0 = 0"
    by (simp add: areaStep64_def fadd_def fsub_def fmul_def)
  then show ?thesis by (simp add: calculatePolygonArea64_def fdiv_def)
qed

text \<open>
  Claim C4, as amended.  In binary64 arithmetic: for every polygon with fewer than 2
  points \<open>calculatePolygonArea\<close> returns 0 (for a single point as long as the product
  of its coordinates stays in the binary64 range) and \<open>isPointInPolygon\<close> returns
  false for every query point.  For a polygon with 2 points \<open>isPointInPolygon\<close>
  returns false whenever both points lie on the same side of the horizontal line through
  the query point; and when the points lie on the 1-ft grid, at most 2^25 ft from the
  origin, \<open>calculatePolygonArea\<close> returns 0 and \<open>isPointInPolygon\<close> returns false
  for every query point on that grid.  Both functions are total and read the polygon
  only at indices below its length.
\<close>

theorem degenerate_polygon64:
  "(length polygon < 2 \<and> list_all inRange polygon \<longrightarrow> calculatePolygonArea64 polygon = 0)
   \<and> (length polygon < 2 \<longrightarrow> \<not> isPointInPolygon64 point polygon)
   \<and> ((py a > py point) = (py b > py point) \<longrightarrow> \<not> isPointInPolygon64 point [a, b])
   \<and> (smallGridPoint c \<and> smallGridPoint d \<longrightarrow> calculatePolygonArea64 [c, d] = 0)
   \<and> (smallGridPoint c \<and> smallGridPoint d \<and> smallGridPoint point
        \<longrightarrow> \<not> isPointInPolygon64 point [c, d])"
proof (intro conjI impI)
  assume "length polygon < 2 \<and> list_all inRange polygon"
  then consider "polygon = []" | p where "polygon = [p]"
    by (cases polygon) (auto simp: length_Suc_conv)
  then show "calculatePolygonArea64 polygon = 0"
    by cases (simp_all add: area_empty area_single)
next
  assume "length polygon < 2"
  then show "\<not> isPointInPolygon64 point polygon" by (rule pip_short)
next
  assume "(py a > py point) = (py b > py point)"
  then show "\<not> isPointInPolygon64 point [a, b]" by (rule pip_two_same_side)
next
  assume "smallGridPoint c \<and> smallGridPoint d"
  then show "calculatePolygonArea64 [c, d] = 0" by (intro area_two_grid_points) simp_all
next
  assume "smallGridPoint c \<and> smallGridPoint d \<and> smallGridPoint point"
  then show "\<not> isPointInPolygon64 point [c, d]" by (intro pip_two_grid_points) simp_all
qed

theorem degenerate_polygon64_witness:
  "length [\<lparr>px = 2, py = 3\<rparr>] < 2 \<and> list_all inRange [\<lparr>px = 2, py = 3\<rparr>]
   \<and> (py \<lparr>px = 1/10, py = 1/10\<rparr> > py \<lparr>px = 0, py = 1\<rparr>)
       = (py \<lparr>px = 1/10, py = 9/10\<rparr> > py \<lparr>px = 0, py = 1\<rparr>)
   \<and> smallGridPoint \<lparr>px = 0, py = 0\<rparr> \<and> smallGridPoint \<lparr>px = 1, py = 3\<rparr>
   \<and> smallGridPoint \<lparr>px = 0, py = 1\<rparr>
   \<and> calculatePolygonArea64 [\<lparr>px = 2, py = 3\<rparr>] = 0
   \<and> \<not> isPointInPolygon64 \<lparr>px = 0, py = 1\<rparr> [\<lparr>px = 2, py = 3\<rparr>]
   \<and> \<not> isPointInPolygon64 \<lparr>px = 0, py = 1\<rparr> [\<lparr>px = 1/10, py = 1/10\<rparr>, \<lparr>px = 1/10, py = 9/10\<rparr>]
   \<and> calculatePolygonArea64 [\<lparr>px = 0, py = 0\<rparr>, \<lparr>px = 1, py = 3\<rparr>] = 0
   \<and> \<not> isPointInPolygon64 \<lparr>px = 0, py = 1\<rparr> [\<lparr>px = 0, py = 0\<rparr>, \<lparr>px = 1, py = 3\<rparr>]"
proof -
  have g: "smallGridPoint \<lparr>px = 0, py = 0\<rparr>" "smallGridPoint \<lparr>px = 1, py = 3\<rparr>"
    "smallGridPoint \<lparr>px = 0, py = 1\<rparr>"
    by (simp_all add: smallGridPoint_def onGrid_def GRID_SIZE_def)
  have r: "list_all inRange [\<lparr>px = 2, py = 3\<rparr>]" by (simp add: inRange_def)
  show ?thesis
    using g r
      degenerate_polygon64 [of "[\<lparr>px = 2, py = 3\<rparr>]" "\<lparr>px = 0, py = 1\<rparr>"
        "\<lparr>px = 1/10, py = 1/10\<rparr>" "\<lparr>px = 1/10, py = 9/10\<rparr>"
        "\<lparr>px = 0, py = 0\<rparr>" "\<lparr>px = 1, py = 3\<rparr>"]
    by simp
qed

text \<open>
  The claim as stated fails for polygons with 2 points off the grid.  The query point
  (10/30, 1) and the polygon \<open>[(0,0), (1,3)]\<close>: the first pass of the loop computes
  the abscissa 0.3333333333333333, which is the query's x, the second pass computes
  0.33333333333333337, which is above it; \<open>inside\<close> is flipped once and the point is
  reported inside.  The polygon \<open>[(0.1, 0.1), (0.1, 0.9)]\<close>: the shoelace sum keeps
  the rounding residue 2^-56 and the area is 2^-57, not 0.
\<close>

theorem two_point_polygon_rounding:
  "fl (10 / 30) = 6004799503160661 / 18014398509481984
   \<and> isPointInPolygon64 \<lparr>px = 6004799503160661 / 18014398509481984, py = 1\<rparr>
        [\<lparr>px = 0, py = 0\<rparr>, \<lparr>px = 1, py = 3\<rparr>]
   \<and> fl (1 / 10) = 3602879701896397 / 36028797018963968
   \<and> fl (9 / 10) = 8106479329266893 / 9007199254740992
   \<and> calculatePolygonArea64
        [\<lparr>px = 3602879701896397 / 36028797018963968, py = 3602879701896397 / 36028797018963968\<rparr>,
         \<lparr>px = 3602879701896397 / 36028797018963968, py = 8106479329266893 / 9007199254740992\<rparr>]
      = 1 / 2 ^ 57
   \<and> calculatePolygonArea64
        [\<lparr>px = 3602879701896397 / 36028797018963968, py = 3602879701896397 / 36028797018963968\<rparr>,
         \<lparr>px = 3602879701896397 / 36028797018963968, py = 8106479329266893 / 9007199254740992\<rparr>]
      \<noteq> 0"
  using fl_third third_point_inside
  by (simp add: fl_tenth fl_nine_tenths area_residue)

section \<open>The unsolved wall path in binary64\<close>

lemma searchFrom64_fails:
  "(\<forall>k. i \<le> k \<and> k < 2 ^ length segs \<longrightarrow> \<not> \<bar>signedSum64 segs k\<bar> < fl (1 / 100)) \<Longrightarrow>
     searchFrom64 segs i = map seg_length segs"
proof (induction segs i rule: searchFrom64.induct)
  case (1 segs i)
  show ?case
  proof (cases "i < 2 ^ length segs")
    case True
    then have n: "\<not> \<bar>signedSum64 segs i\<bar> < fl (1 / 100)" using "1.prems" by auto
    have "searchFrom64 segs i = searchFrom64 segs (i + 1)"
      using True n by (subst searchFrom64.simps) simp
    moreover have "searchFrom64 segs (i + 1) = map seg_length segs"
      using "1.IH" [OF True n] "1.prems" by auto
    ultimately show ?thesis by simp
  next
    case False
    then show ?thesis by (subst searchFrom64.simps) simp
  qed
qed

lemma solveDirections64_fails:
  "searchFails64 segs \<Longrightarrow> solveDirections64 segs = map seg_length segs"
  by (auto simp: searchFails64_def solveDirections64_def list_all_iff intro!: searchFrom64_fails)

lemma searchFrom64_length: "length (searchFrom64 segs i) = length segs"
proof (induction segs i rule: searchFrom64.induct)
  case (1 segs i)
  show ?case
  proof (cases "i < 2 ^ length segs \<and> \<not> \<bar>signedSum64 segs i\<bar> < fl (1 / 100)")
    case True
    then have "searchFrom64 segs i = searchFrom64 segs (i + 1)" by (subst searchFrom64.simps) simp
    then show ?thesis using 1 True by simp
  next
    case False
    then show ?thesis by (subst searchFrom64.simps) auto
  qed
qed

lemma solveDirections64_length: "length (solveDirections64 segs) = length segs"
  by (simp add: solveDirections64_def searchFrom64_length)

lemma orientation_not_H: "orientation s \<noteq> H \<longleftrightarrow> orientation s = V"
  by (cases "orientation s") auto

text \<open>Bounds on the double nearest to 0.01.\<close>

lemma fl_hundredth: "1 / 128 \<le> fl (1 / 100)" "fl (1 / 100) \<le> 1 / 64"
proof -
  have a: "isDouble (1 / 128)" using isDouble_dyadic [of 1 7] by simp
  have b: "isDouble (1 / 64)" using isDouble_dyadic [of 1 6] by simp
  show "1 / 128 \<le> fl (1 / 100)" by (rule fl_ge [OF a]) simp
  show "fl (1 / 100) \<le> 1 / 64" by (rule fl_le [OF b]) simp
qed

text \<open>Snapping a value of moderate size gives an integer of moderate size.\<close>

lemma fl_bounded:
  assumes "\<bar>v\<bar> \<le> 2 ^ 31"
  shows "\<bar>fl v\<bar> \<le> 2 ^ 31"
proof -
  have a: "isDouble (2 ^ 31)" using isDouble_int [of "2 ^ 31"] by simp
  have b: "isDouble (- (2 ^ 31))" using isDouble_int [of "- (2 ^ 31)"] by simp
  have "fl v \<le> 2 ^ 31" using assms by (intro fl_le [OF a]) simp
  moreover have "- (2 ^ 31) \<le> fl v" using assms by (intro fl_ge [OF b]) simp
  ultimately show ?thesis by simp
qed

lemma round_bounded:
  fixes w :: real
  assumes "\<bar>w\<bar> \<le> 2 ^ 31"
  shows "\<bar>round w\<bar> \<le> 2 ^ 31"
proof -
  have "round w \<le> round (real_of_int (2 ^ 31))" using assms by (intro round_mono) simp
  moreover have "round (real_of_int (- (2 ^ 31))) \<le> round w" using assms by (intro round_mono) simp
  ultimately show ?thesis by (simp only: round_of_int)
qed

lemma snapToGrid64_int:
  assumes "\<bar>v\<bar> \<le> 2 ^ 31"
  obtains c where "snapToGrid64 v = real_of_int c" "\<bar>c\<bar> \<le> 2 ^ 31"
proof -
  define c where "c = round (fl v)"
  have c: "\<bar>c\<bar> \<le> 2 ^ 31" unfolding c_def using assms by (intro round_bounded fl_bounded)
  then have "fl (real_of_int c) = real_of_int c" by (intro fl_int) simp
  then have "snapToGrid64 v = real_of_int c"
    by (simp add: snapToGrid64_def fmul_def fdiv_def GRID_SIZE_def c_def)
  then show ?thesis using c that by blast
qed

lemma roundingMargin_pos: "0 < roundingMargin"
  by (simp add: roundingMargin_def)

lemma isDouble_half_above:
  assumes "\<bar>c\<bar> \<le> 2 ^ 31"
  shows "isDouble (real_of_int c + 1/2)"
proof -
  have "\<bar>2 * c + 1\<bar> < 2 ^ 53" using assms by simp
  then have "isDouble (real_of_int (2 * c + 1) / 2 ^ 1)" by (rule isDouble_dyadic)
  moreover have "real_of_int (2 * c + 1) / 2 ^ 1 = real_of_int c + 1/2" by (simp add: field_simps)
  ultimately show ?thesis by (simp only:)
qed

text \<open>
  One rounded addition, starting at or above the integer \<open>c\<close>: the result reaches
  \<open>c + 1/2\<close>, or it lies less than the rounding margin below the exact sum.
\<close>

lemma fl_step:
  assumes "real_of_int c \<le> v" "\<bar>c\<bar> \<le> 2 ^ 31"
  shows "real_of_int c + 1/2 \<le> fl v \<or> v - roundingMargin \<le> fl v"
proof (cases "real_of_int c + 1/2 \<le> v")
  case True
  then have "real_of_int c + 1/2 \<le> fl v"
    by (rule fl_ge [OF isDouble_half_above [OF assms(2)]])
  then show ?thesis ..
next
  case False
  define K :: real where "K = 2 ^ 20"
  define m where "m = \<lfloor>v * K\<rfloor>"
  have Kpos: "0 < K" by (simp add: K_def)
  have lo: "real_of_int (c * 2 ^ 20) \<le> v * K"
    using assms(1) Kpos by (simp add: K_def)
  have hi: "v * K < real_of_int ((c + 1) * 2 ^ 20)"
    using False Kpos by (simp add: K_def)
  have "c * 2 ^ 20 \<le> m" unfolding m_def using lo by (simp only: le_floor_iff)
  moreover have "m < (c + 1) * 2 ^ 20" unfolding m_def using hi by (simp only: floor_less_iff)
  moreover have "- (2 ^ 31) \<le> c" "c \<le> 2 ^ 31" using assms(2) by simp_all
  ultimately have "\<bar>m\<bar> < 2 ^ 53" by simp
  then have d: "isDouble (real_of_int m / 2 ^ 20)" by (rule isDouble_dyadic)
  have m1: "real_of_int m \<le> v * K" unfolding m_def by (rule of_int_floor_le)
  have m2: "v * K - 1 < real_of_int m" unfolding m_def by linarith
  have g1: "real_of_int m / 2 ^ 20 \<le> v"
    using m1 by (simp add: K_def field_simps)
  have g2: "v - roundingMargin < real_of_int m / 2 ^ 20"
    using m2 by (simp add: K_def roundingMargin_def field_simps)
  have "real_of_int m / 2 ^ 20 \<le> fl v" using d g1 by (rule fl_ge)
  then have "v - roundingMargin \<le> fl v" using g2 by linarith
  then show ?thesis ..
qed

lemma fl_step_half:
  assumes "real_of_int c \<le> x" "1/2 \<le> l" "\<bar>c\<bar> \<le> 2 ^ 31"
  shows "real_of_int c + 1/2 \<le> fl (x + l)"
proof -
  have "real_of_int c + 1/2 \<le> x + l" using assms(1,2) by linarith
  then show ?thesis by (rule fl_ge [OF isDouble_half_above [OF assms(3)]])
qed

lemma fl_step_mono:
  assumes "isDouble x" "0 \<le> l"
  shows "x \<le> fl (x + l)"
  using assms by (intro fl_ge) simp_all

lemma walk64_exists:
  assumes "length hL = length (filter (\<lambda>s. orientation s = H) segs)"
      and "length vL = length (filter (\<lambda>s. orientation s = V) segs)"
  shows "\<exists>pts. walkSegments64 cur segs hL vL = Some pts \<and> length pts = length segs"
  using assms
proof (induction segs arbitrary: cur hL vL)
  case Nil
  then show ?case by simp
next
  case (Cons seg rest)
  show ?case
  proof (cases "orientation seg = H")
    case True
    then obtain len hL' where hL: "hL = len # hL'"
      using Cons.prems(1) by (cases hL) auto
    let ?next = "\<lparr>px = fadd (px cur) len, py = py cur\<rparr>"
    have "length hL' = length (filter (\<lambda>s. orientation s = H) rest)"
      and "length vL = length (filter (\<lambda>s. orientation s = V) rest)"
      using Cons.prems True hL by auto
    from Cons.IH [OF this, of ?next]
    obtain pts where "walkSegments64 ?next rest hL' vL = Some pts" "length pts = length rest"
      by blast
    then show ?thesis using True hL by simp
  next
    case False
    then have isV: "orientation seg = V" by (simp add: orientation_not_H)
    then obtain len vL' where vL: "vL = len # vL'"
      using Cons.prems(2) by (cases vL) auto
    let ?next = "\<lparr>px = px cur, py = fadd (py cur) len\<rparr>"
    have "length hL = length (filter (\<lambda>s. orientation s = H) rest)"
      and "length vL' = length (filter (\<lambda>s. orientation s = V) rest)"
      using Cons.prems isV vL by auto
    from Cons.IH [OF this, of ?next]
    obtain pts where "walkSegments64 ?next rest hL vL' = Some pts" "length pts = length rest"
      by blast
    then show ?thesis using isV vL by simp
  qed
qed

text \<open>
  The walk along x when every horizontal length is non-negative: no point lies left of
  the current one, and the last point reaches \<open>c + 1/2\<close> or stays within the rounding
  margins of the exact sum.
\<close>

lemma walk64_x:
  assumes "walkSegments64 cur segs hL vL = Some pts"
      and "length hL = length (filter (\<lambda>s. orientation s = H) segs)"
      and "\<forall>l\<in>set hL. 0 \<le> l"
      and "isDouble (px cur)" and "real_of_int c \<le> px cur" and "\<bar>c\<bar> \<le> 2 ^ 31"
  shows "(\<forall>p\<in>set pts. px cur \<le> px p)
       \<and> (real_of_int c + 1/2 \<le> px (last (cur # pts))
          \<or> px cur + sum_list hL - real (length hL) * roundingMargin \<le> px (last (cur # pts)))
       \<and> ((\<exists>l\<in>set hL. 1/2 \<le> l) \<longrightarrow> real_of_int c + 1/2 \<le> px (last (cur # pts)))"
  using assms(1-5)
proof (induction segs arbitrary: cur hL vL pts)
  case Nil
  then show ?case by simp
next
  case (Cons seg rest)
  show ?case
  proof (cases "orientation seg = H")
    case True
    then obtain len hL' where hL: "hL = len # hL'"
      using Cons.prems(2) by (cases hL) auto
    define nx where "nx = fl (px cur + len)"
    define nxt where "nxt = \<lparr>px = nx, py = py cur\<rparr>"
    obtain pts' where pts: "pts = nxt # pts'" and w: "walkSegments64 nxt rest hL' vL = Some pts'"
      using Cons.prems(1) True hL by (auto simp: nxt_def nx_def fadd_def Let_def)
    have len0: "0 \<le> len" using Cons.prems(3) hL by simp
    have pxn: "px nxt = nx" by (simp add: nxt_def)
    have mono: "px cur \<le> nx" unfolding nx_def using Cons.prems(4) len0 by (rule fl_step_mono)
    have dn: "isDouble (px nxt)" unfolding pxn nx_def by (rule isDouble_fl)
    have cn: "real_of_int c \<le> px nxt" unfolding pxn using mono Cons.prems(5) by linarith
    have l': "length hL' = length (filter (\<lambda>s. orientation s = H) rest)"
      using Cons.prems(2) True hL by simp
    have n': "\<forall>l\<in>set hL'. 0 \<le> l" using Cons.prems(3) hL by simp
    note IH = Cons.IH [OF w l' n' dn cn]
    have A': "\<forall>p\<in>set pts'. nx \<le> px p" using IH pxn by simp
    have B': "real_of_int c + 1/2 \<le> px (last (nxt # pts'))
          \<or> nx + sum_list hL' - real (length hL') * roundingMargin \<le> px (last (nxt # pts'))"
      using IH pxn by simp
    have C': "(\<exists>l\<in>set hL'. 1/2 \<le> l) \<longrightarrow> real_of_int c + 1/2 \<le> px (last (nxt # pts'))"
      using IH by simp
    have lastn: "nx \<le> px (last (nxt # pts'))"
    proof (cases "pts' = []")
      case True
      then show ?thesis by (simp add: pxn)
    next
      case False
      then have "last (nxt # pts') \<in> set pts'" by simp
      then show ?thesis using A' by blast
    qed
    have last_eq: "last (cur # pts) = last (nxt # pts')" by (simp add: pts)
    have A: "\<forall>p\<in>set pts. px cur \<le> px p"
    proof
      fix p assume "p \<in> set pts"
      then have "nx \<le> px p" using A' pxn pts by auto
      then show "px cur \<le> px p" using mono by linarith
    qed
    have v: "real_of_int c \<le> px cur + len" using Cons.prems(5) len0 by linarith
    have B: "real_of_int c + 1/2 \<le> px (last (cur # pts))
          \<or> px cur + sum_list hL - real (length hL) * roundingMargin \<le> px (last (cur # pts))"
    proof -
      from fl_step [OF v assms(6)]
      consider (far) "real_of_int c + 1/2 \<le> nx" | (near) "px cur + len - roundingMargin \<le> nx"
        unfolding nx_def by blast
      then show ?thesis
      proof cases
        case far
        then show ?thesis unfolding last_eq using lastn by linarith
      next
        case near
        from B' show ?thesis
        proof
          assume "real_of_int c + 1/2 \<le> px (last (nxt # pts'))"
          then show ?thesis unfolding last_eq ..
        next
          assume b: "nx + sum_list hL' - real (length hL') * roundingMargin \<le> px (last (nxt # pts'))"
          have "sum_list hL = len + sum_list hL'" by (simp add: hL)
          moreover have "real (length hL) * roundingMargin
                         = roundingMargin + real (length hL') * roundingMargin"
            by (simp add: hL algebra_simps)
          ultimately have "px cur + sum_list hL - real (length hL) * roundingMargin
                \<le> px (last (nxt # pts'))"
            using b near by linarith
          then show ?thesis unfolding last_eq ..
        qed
      qed
    qed
    have C: "(\<exists>l\<in>set hL. 1/2 \<le> l) \<longrightarrow> real_of_int c + 1/2 \<le> px (last (cur # pts))"
    proof
      assume "\<exists>l\<in>set hL. 1/2 \<le> l"
      then consider (here) "1/2 \<le> len" | (later) "\<exists>l\<in>set hL'. 1/2 \<le> l"
        using hL by auto
      then show "real_of_int c + 1/2 \<le> px (last (cur # pts))"
      proof cases
        case here
        have "real_of_int c + 1/2 \<le> nx"
          unfolding nx_def using Cons.prems(5) here assms(6) by (rule fl_step_half)
        then show ?thesis unfolding last_eq using lastn by linarith
      next
        case later
        then show ?thesis unfolding last_eq using C' by blast
      qed
    qed
    show ?thesis using A B C by blast
  next
    case False
    then have isV: "orientation seg = V" by (simp add: orientation_not_H)
    obtain len vL' where vL: "vL = len # vL'"
      using Cons.prems(1) isV by (cases vL) auto
    define nxt where "nxt = \<lparr>px = px cur, py = fadd (py cur) len\<rparr>"
    obtain pts' where pts: "pts = nxt # pts'" and w: "walkSegments64 nxt rest hL vL' = Some pts'"
      using Cons.prems(1) isV vL by (auto simp: nxt_def Let_def)
    have pxn: "px nxt = px cur" by (simp add: nxt_def)
    have l': "length hL = length (filter (\<lambda>s. orientation s = H) rest)"
      using Cons.prems(2) isV by simp
    have dn: "isDouble (px nxt)" unfolding pxn by (rule Cons.prems(4))
    have cn: "real_of_int c \<le> px nxt" unfolding pxn by (rule Cons.prems(5))
    note IH = Cons.IH [OF w l' Cons.prems(3) dn cn]
    have last_eq: "last (cur # pts) = last (nxt # pts')" by (simp add: pts)
    show ?thesis unfolding last_eq using IH pxn pts by auto
  qed
qed

lemma walk64_y:
  assumes "walkSegments64 cur segs hL vL = Some pts"
      and "length vL = length (filter (\<lambda>s. orientation s = V) segs)"
      and "\<forall>l\<in>set vL. 0 \<le> l"
      and "isDouble (py cur)" and "real_of_int c \<le> py cur" and "\<bar>c\<bar> \<le> 2 ^ 31"
  shows "(\<forall>p\<in>set pts. py cur \<le> py p)
       \<and> (real_of_int c + 1/2 \<le> py (last (cur # pts))
          \<or> py cur + sum_list vL - real (length vL) * roundingMargin \<le> py (last (cur # pts)))
       \<and> ((\<exists>l\<in>set vL. 1/2 \<le> l) \<longrightarrow> real_of_int c + 1/2 \<le> py (last (cur # pts)))"
  using assms(1-5)
proof (induction segs arbitrary: cur hL vL pts)
  case Nil
  then show ?case by simp
next
  case (Cons seg rest)
  show ?case
  proof (cases "orientation seg = H")
    case False
    then have isV: "orientation seg = V" by (simp add: orientation_not_H)
    then obtain len vL' where vL: "vL = len # vL'"
      using Cons.prems(2) by (cases vL) auto
    define ny where "ny = fl (py cur + len)"
    define nxt where "nxt = \<lparr>px = px cur, py = ny\<rparr>"
    obtain pts' where pts: "pts = nxt # pts'" and w: "walkSegments64 nxt rest hL vL' = Some pts'"
      using Cons.prems(1) isV vL by (auto simp: nxt_def ny_def fadd_def Let_def)
    have len0: "0 \<le> len" using Cons.prems(3) vL by simp
    have pyn: "py nxt = ny" by (simp add: nxt_def)
    have mono: "py cur \<le> ny" unfolding ny_def using Cons.prems(4) len0 by (rule fl_step_mono)
    have dn: "isDouble (py nxt)" unfolding pyn ny_def by (rule isDouble_fl)
    have cn: "real_of_int c \<le> py nxt" unfolding pyn using mono Cons.prems(5) by linarith
    have l': "length vL' = length (filter (\<lambda>s. orientation s = V) rest)"
      using Cons.prems(2) isV vL by simp
    have n': "\<forall>l\<in>set vL'. 0 \<le> l" using Cons.prems(3) vL by simp
    note IH = Cons.IH [OF w l' n' dn cn]
    have A': "\<forall>p\<in>set pts'. ny \<le> py p" using IH pyn by simp
    have B': "real_of_int c + 1/2 \<le> py (last (nxt # pts'))
          \<or> ny + sum_list vL' - real (length vL') * roundingMargin \<le> py (last (nxt # pts'))"
      using IH pyn by simp
    have C': "(\<exists>l\<in>set vL'. 1/2 \<le> l) \<longrightarrow> real_of_int c + 1/2 \<le> py (last (nxt # pts'))"
      using IH by simp
    have lastn: "ny \<le> py (last (nxt # pts'))"
    proof (cases "pts' = []")
      case True
      then show ?thesis by (simp add: pyn)
    next
      case False
      then have "last (nxt # pts') \<in> set pts'" by simp
      then show ?thesis using A' by blast
    qed
    have last_eq: "last (cur # pts) = last (nxt # pts')" by (simp add: pts)
    have A: "\<forall>p\<in>set pts. py cur \<le> py p"
    proof
      fix p assume "p \<in> set pts"
      then have "ny \<le> py p" using A' pyn pts by auto
      then show "py cur \<le> py p" using mono by linarith
    qed
    have v: "real_of_int c \<le> py cur + len" using Cons.prems(5) len0 by linarith
    have B: "real_of_int c + 1/2 \<le> py (last (cur # pts))
          \<or> py cur + sum_list vL - real (length vL) * roundingMargin \<le> py (last (cur # pts))"
    proof -
      from fl_step [OF v assms(6)]
      consider (far) "real_of_int c + 1/2 \<le> ny" | (near) "py cur + len - roundingMargin \<le> ny"
        unfolding ny_def by blast
      then show ?thesis
      proof cases
        case far
        then show ?thesis unfolding last_eq using lastn by linarith
      next
        case near
        from B' show ?thesis
        proof
          assume "real_of_int c + 1/2 \<le> py (last (nxt # pts'))"
          then show ?thesis unfolding last_eq ..
        next
          assume b: "ny + sum_list vL' - real (length vL') * roundingMargin \<le> py (last (nxt # pts'))"
          have "sum_list vL = len + sum_list vL'" by (simp add: vL)
          moreover have "real (length vL) * roundingMargin
                         = roundingMargin + real (length vL') * roundingMargin"
            by (simp add: vL algebra_simps)
          ultimately have "py cur + sum_list vL - real (length vL) * roundingMargin
                \<le> py (last (nxt # pts'))"
            using b near by linarith
          then show ?thesis unfolding last_eq ..
        qed
      qed
    qed
    have C: "(\<exists>l\<in>set vL. 1/2 \<le> l) \<longrightarrow> real_of_int c + 1/2 \<le> py (last (cur # pts))"
    proof
      assume "\<exists>l\<in>set vL. 1/2 \<le> l"
      then consider (here) "1/2 \<le> len" | (later) "\<exists>l\<in>set vL'. 1/2 \<le> l"
        using vL by auto
      then show "real_of_int c + 1/2 \<le> py (last (cur # pts))"
      proof cases
        case here
        have "real_of_int c + 1/2 \<le> ny"
          unfolding ny_def using Cons.prems(5) here assms(6) by (rule fl_step_half)
        then show ?thesis unfolding last_eq using lastn by linarith
      next
        case later
        then show ?thesis unfolding last_eq using C' by blast
      qed
    qed
    show ?thesis using A B C by blast
  next
    case True
    obtain len hL' where hL: "hL = len # hL'"
      using Cons.prems(1) True by (cases hL) auto
    define nxt where "nxt = \<lparr>px = fadd (px cur) len, py = py cur\<rparr>"
    obtain pts' where pts: "pts = nxt # pts'" and w: "walkSegments64 nxt rest hL' vL = Some pts'"
      using Cons.prems(1) True hL by (auto simp: nxt_def Let_def)
    have pyn: "py nxt = py cur" by (simp add: nxt_def)
    have l': "length vL = length (filter (\<lambda>s. orientation s = V) rest)"
      using Cons.prems(2) True by simp
    have dn: "isDouble (py nxt)" unfolding pyn by (rule Cons.prems(4))
    have cn: "real_of_int c \<le> py nxt" unfolding pyn by (rule Cons.prems(5))
    note IH = Cons.IH [OF w l' Cons.prems(3) dn cn]
    have last_eq: "last (cur # pts) = last (nxt # pts')" by (simp add: pts)
    show ?thesis unfolding last_eq using IH pyn pts by auto
  qed
qed

lemma min_list_head:
  assumes "\<forall>y\<in>set xs. (x::real) \<le> y"
  shows "min_list (x # xs) = x"
proof -
  have "min_list (x # xs) = Min (set (x # xs))" by (rule min_list_Min) simp
  also have "\<dots> = x" using assms by (intro Min_eqI) auto
  finally show ?thesis .
qed

lemma snapToGrid64_far:
  assumes "21/2 \<le> v"
  shows "11 \<le> snapToGrid64 v"
proof -
  have d: "isDouble (21/2)" using isDouble_dyadic [of 21 1] by simp
  have e: "isDouble 11" using isDouble_int [of 11] by simp
  define w where "w = fl v"
  have "21/2 \<le> w" unfolding w_def using d assms by (rule fl_ge)
  then have "real_of_int 11 \<le> w + 1/2" by simp
  then have "(11::int) \<le> \<lfloor>w + 1/2\<rfloor>" by (simp only: le_floor_iff)
  then have "(11::int) \<le> round w" by (simp only: round_def)
  then have "(11::real) \<le> real_of_int (round w)" by linarith
  then have "11 \<le> fl (real_of_int (round w))" by (rule fl_ge [OF e])
  then show ?thesis by (simp add: snapToGrid64_def fmul_def fdiv_def GRID_SIZE_def w_def)
qed

lemma snapToGrid64_of_int:
  assumes "\<bar>n\<bar> \<le> 2 ^ 52"
  shows "snapToGrid64 (real_of_int n) = real_of_int n"
proof -
  have "fl (real_of_int n) = real_of_int n" using assms by (rule fl_int_le)
  then show ?thesis by (simp add: snapToGrid64_def fmul_def fdiv_def GRID_SIZE_def)
qed

lemma snapToGrid64_10: "snapToGrid64 10 = 10"
  using snapToGrid64_of_int [of 10] by simp

lemma dist64_ge_1:
  assumes "1 \<le> a"
  shows "1 \<le> fl (sqrt (fadd (fl (a\<^sup>2)) (fl (b\<^sup>2))))"
proof -
  have one: "isDouble 1" using isDouble_int [of 1] by simp
  have zero: "isDouble 0" using isDouble_int [of 0] by simp
  have "1\<^sup>2 \<le> a\<^sup>2" using assms by (intro power_mono) simp_all
  then have "1 \<le> a\<^sup>2" by simp
  then have A: "1 \<le> fl (a\<^sup>2)" by (rule fl_ge [OF one])
  have "0 \<le> b\<^sup>2" by simp
  then have B: "0 \<le> fl (b\<^sup>2)" by (rule fl_ge [OF zero])
  have "1 \<le> fl (a\<^sup>2) + fl (b\<^sup>2)" using A B by linarith
  then have "1 \<le> fadd (fl (a\<^sup>2)) (fl (b\<^sup>2))" unfolding fadd_def by (rule fl_ge [OF one])
  then have "1 \<le> sqrt (fadd (fl (a\<^sup>2)) (fl (b\<^sup>2)))" by simp
  then show ?thesis by (rule fl_ge [OF one])
qed

lemma dist64_ge_1':
  assumes "1 \<le> b"
  shows "1 \<le> fl (sqrt (fadd (fl (a\<^sup>2)) (fl (b\<^sup>2))))"
proof -
  have one: "isDouble 1" using isDouble_int [of 1] by simp
  have zero: "isDouble 0" using isDouble_int [of 0] by simp
  have "1\<^sup>2 \<le> b\<^sup>2" using assms by (intro power_mono) simp_all
  then have "1 \<le> b\<^sup>2" by simp
  then have B: "1 \<le> fl (b\<^sup>2)" by (rule fl_ge [OF one])
  have "0 \<le> a\<^sup>2" by simp
  then have A: "0 \<le> fl (a\<^sup>2)" by (rule fl_ge [OF zero])
  have "1 \<le> fl (a\<^sup>2) + fl (b\<^sup>2)" using A B by linarith
  then have "1 \<le> fadd (fl (a\<^sup>2)) (fl (b\<^sup>2))" unfolding fadd_def by (rule fl_ge [OF one])
  then have "1 \<le> sqrt (fadd (fl (a\<^sup>2)) (fl (b\<^sup>2)))" by simp
  then show ?thesis by (rule fl_ge [OF one])
qed

lemma normalizePoints64_first:
  "px (normalizePoints64 (cur # pts) ! 0)
     = snapToGrid64 (fadd (px cur) (fsub 10 (min_list (map px (cur # pts)))))"
  "py (normalizePoints64 (cur # pts) ! 0)
     = snapToGrid64 (fadd (py cur) (fsub 10 (min_list (map py (cur # pts)))))"
  by (simp_all add: normalizePoints64_def Let_def del: min_list.simps)

lemma normalizePoints64_last:
  "px (normalizePoints64 (cur # pts) ! (length (normalizePoints64 (cur # pts)) - 1))
     = snapToGrid64 (fadd (px (last (cur # pts))) (fsub 10 (min_list (map px (cur # pts)))))"
  "py (normalizePoints64 (cur # pts) ! (length (normalizePoints64 (cur # pts)) - 1))
     = snapToGrid64 (fadd (py (last (cur # pts))) (fsub 10 (min_list (map py (cur # pts)))))"
proof -
  let ?np = "normalizePoints64 (cur # pts)"
  have ne: "?np \<noteq> []" by (simp add: normalizePoints64_def Let_def)
  have "?np ! (length ?np - 1) = last ?np" using ne by (simp add: last_conv_nth)
  moreover have "last ?np
      = \<lparr>px = snapToGrid64 (fadd (px (last (cur # pts))) (fsub 10 (min_list (map px (cur # pts))))),
         py = snapToGrid64 (fadd (py (last (cur # pts))) (fsub 10 (min_list (map py (cur # pts)))))\<rparr>"
    unfolding normalizePoints64_def Let_def by (subst last_map) simp_all
  ultimately show
    "px (?np ! (length ?np - 1))
       = snapToGrid64 (fadd (px (last (cur # pts))) (fsub 10 (min_list (map px (cur # pts)))))"
    "py (?np ! (length ?np - 1))
       = snapToGrid64 (fadd (py (last (cur # pts))) (fsub 10 (min_list (map py (cur # pts)))))"
    by simp_all
qed

text \<open>
  The offset \<open>10 - c\<close> is exact for an integer \<open>c\<close> of moderate size; it moves
  \<open>c\<close> to 10 and everything from \<open>c + 1/2\<close> on to 11 or beyond.
\<close>

lemma offset_exact:
  assumes "\<bar>c\<bar> \<le> 2 ^ 31"
  shows "fsub 10 (real_of_int c) = 10 - real_of_int c"
    and "snapToGrid64 (fadd (real_of_int c) (10 - real_of_int c)) = 10"
    and "real_of_int c + 1/2 \<le> t \<Longrightarrow> 1 \<le> fsub (snapToGrid64 (fadd t (10 - real_of_int c))) 10"
proof -
  have "\<bar>10 - c\<bar> < 2 ^ 53" using assms by simp
  then have "fl (real_of_int (10 - c)) = real_of_int (10 - c)" by (rule fl_int)
  then show "fsub 10 (real_of_int c) = 10 - real_of_int c" by (simp add: fsub_def)
  show "snapToGrid64 (fadd (real_of_int c) (10 - real_of_int c)) = 10"
    by (simp add: fadd_def snapToGrid64_10)
  assume t: "real_of_int c + 1/2 \<le> t"
  have d: "isDouble (21/2)" using isDouble_dyadic [of 21 1] by simp
  have one: "isDouble 1" using isDouble_int [of 1] by simp
  have "21/2 \<le> t + (10 - real_of_int c)" using t by linarith
  then have "21/2 \<le> fadd t (10 - real_of_int c)" unfolding fadd_def by (rule fl_ge [OF d])
  then have "11 \<le> snapToGrid64 (fadd t (10 - real_of_int c))" by (rule snapToGrid64_far)
  then have "1 \<le> snapToGrid64 (fadd t (10 - real_of_int c)) - 10" by linarith
  then show "1 \<le> fsub (snapToGrid64 (fadd t (10 - real_of_int c))) 10"
    unfolding fsub_def by (rule fl_ge [OF one])
qed

lemma open_along_x64:
  assumes "\<forall>p\<in>set pts. px cur \<le> px p" and "px cur = real_of_int c" and "\<bar>c\<bar> \<le> 2 ^ 31"
      and "real_of_int c + 1/2 \<le> px (last (cur # pts))"
  shows "1 \<le> distToStart64 (normalizePoints64 (cur # pts))"
proof -
  have m: "min_list (map px (cur # pts)) = real_of_int c"
    using assms(1,2) min_list_head [of "map px pts" "px cur"] by simp
  have f: "px (normalizePoints64 (cur # pts) ! 0) = 10"
    unfolding normalizePoints64_first m offset_exact(1) [OF assms(3)] assms(2)
    by (rule offset_exact(2) [OF assms(3)])
  have "1 \<le> fsub (px (normalizePoints64 (cur # pts) ! (length (normalizePoints64 (cur # pts)) - 1))) 10"
    unfolding normalizePoints64_last m offset_exact(1) [OF assms(3)]
    using assms(4) by (rule offset_exact(3) [OF assms(3)])
  then show ?thesis unfolding distToStart64_def f by (rule dist64_ge_1)
qed

lemma open_along_y64:
  assumes "\<forall>p\<in>set pts. py cur \<le> py p" and "py cur = real_of_int c" and "\<bar>c\<bar> \<le> 2 ^ 31"
      and "real_of_int c + 1/2 \<le> py (last (cur # pts))"
  shows "1 \<le> distToStart64 (normalizePoints64 (cur # pts))"
proof -
  have m: "min_list (map py (cur # pts)) = real_of_int c"
    using assms(1,2) min_list_head [of "map py pts" "py cur"] by simp
  have f: "py (normalizePoints64 (cur # pts) ! 0) = 10"
    unfolding normalizePoints64_first m offset_exact(1) [OF assms(3)] assms(2)
    by (rule offset_exact(2) [OF assms(3)])
  have "1 \<le> fsub (py (normalizePoints64 (cur # pts) ! (length (normalizePoints64 (cur # pts)) - 1))) 10"
    unfolding normalizePoints64_last m offset_exact(1) [OF assms(3)]
    using assms(4) by (rule offset_exact(3) [OF assms(3)])
  then show ?thesis unfolding distToStart64_def f by (rule dist64_ge_1')
qed

lemma fallback_lengths64:
  assumes "\<forall>s\<in>set segments. 0 \<le> seg_length s" and "searchFails64 (filter P segments)"
  shows "solveDirections64 (filter P segments) = map seg_length (filter P segments)"
    and "\<forall>l\<in>set (solveDirections64 (filter P segments)). 0 \<le> l"
proof -
  show e: "solveDirections64 (filter P segments) = map seg_length (filter P segments)"
    using assms(2) by (rule solveDirections64_fails)
  show "\<forall>l\<in>set (solveDirections64 (filter P segments)). 0 \<le> l"
    unfolding e using assms(1) by auto
qed

lemma longEnough_reach:
  assumes "longEnough segs"
      and "real_of_int c + 1/2 \<le> t
           \<or> real_of_int c + sum_list (map seg_length segs)
               - real (length (map seg_length segs)) * roundingMargin \<le> t"
      and "(\<exists>l\<in>set (map seg_length segs). 1/2 \<le> l) \<longrightarrow> real_of_int c + 1/2 \<le> t"
  shows "real_of_int c + 1/2 \<le> t"
proof -
  consider (one) "list_ex (\<lambda>s. 1/2 \<le> seg_length s) segs"
    | (total) "1/2 + real (length segs) * roundingMargin \<le> sum_list (map seg_length segs)"
    using assms(1) unfolding longEnough_def by blast
  then show ?thesis
  proof cases
    case one
    then have "\<exists>l\<in>set (map seg_length segs). 1/2 \<le> l" by (auto simp: list_ex_iff)
    then show ?thesis using assms(3) by blast
  next
    case total
    from assms(2) show ?thesis
    proof
      assume "real_of_int c + 1/2 \<le> t"
      then show ?thesis .
    next
      assume "real_of_int c + sum_list (map seg_length segs)
               - real (length (map seg_length segs)) * roundingMargin \<le> t"
      then show ?thesis using total by simp
    qed
  qed
qed

lemma unsolved_open:
  assumes nonneg: "\<forall>s\<in>set segments. 0 \<le> seg_length s"
      and mx: "\<bar>px mousePos\<bar> \<le> 2 ^ 31" and my: "\<bar>py mousePos\<bar> \<le> 2 ^ 31"
      and un: "(searchFails64 (filter (\<lambda>s. orientation s = H) segments)
                 \<and> longEnough (filter (\<lambda>s. orientation s = H) segments))
             \<or> (searchFails64 (filter (\<lambda>s. orientation s = V) segments)
                 \<and> longEnough (filter (\<lambda>s. orientation s = V) segments))"
  shows "\<exists>pts. bulkPath64 mousePos segments = Some pts
           \<and> length pts = length segments + 1
           \<and> 1 \<le> distToStart64 (normalizePoints64 pts)
           \<and> handleBulkWallInput64 mousePos segments
               = NewWalls (map (\<lambda>i. (normalizePoints64 pts ! (i - 1), normalizePoints64 pts ! i))
                               [1..<length (normalizePoints64 pts)])"
proof -
  let ?hs = "filter (\<lambda>s. orientation s = H) segments"
  let ?vs = "filter (\<lambda>s. orientation s = V) segments"
  obtain cx where cx: "snapToGrid64 (px mousePos) = real_of_int cx" "\<bar>cx\<bar> \<le> 2 ^ 31"
    using mx by (rule snapToGrid64_int)
  obtain cy where cy: "snapToGrid64 (py mousePos) = real_of_int cy" "\<bar>cy\<bar> \<le> 2 ^ 31"
    using my by (rule snapToGrid64_int)
  define cur where "cur = \<lparr>px = real_of_int cx, py = real_of_int cy\<rparr>"
  have pc: "px cur = real_of_int cx" "py cur = real_of_int cy" by (simp_all add: cur_def)
  have lh: "length (solveDirections64 ?hs) = length ?hs"
    and lv: "length (solveDirections64 ?vs) = length ?vs"
    by (simp_all add: solveDirections64_length)
  obtain pts where w: "walkSegments64 cur segments (solveDirections64 ?hs) (solveDirections64 ?vs) = Some pts"
      and len: "length pts = length segments"
    using walk64_exists [OF lh lv, of cur] by blast
  have bp: "bulkPath64 mousePos segments = Some (cur # pts)"
    using w by (simp add: bulkPath64_def Let_def cx(1) cy(1) cur_def)
  have dx: "isDouble (px cur)" unfolding pc using cx(2) by (intro isDouble_int) simp
  have dy: "isDouble (py cur)" unfolding pc using cy(2) by (intro isDouble_int) simp
  have far: "1 \<le> distToStart64 (normalizePoints64 (cur # pts))"
  proof -
    consider (h) "searchFails64 ?hs" "longEnough ?hs" | (v) "searchFails64 ?vs" "longEnough ?vs"
      using un by blast
    then show ?thesis
    proof cases
      case h
      note f = fallback_lengths64 [OF nonneg h(1)]
      have cle: "real_of_int cx \<le> px cur" by (simp add: pc)
      note W = walk64_x [OF w lh f(2) dx cle cx(2)]
      have A: "\<forall>p\<in>set pts. px cur \<le> px p" using W by blast
      have B: "real_of_int cx + 1/2 \<le> px (last (cur # pts))
          \<or> real_of_int cx + sum_list (map seg_length ?hs)
               - real (length (map seg_length ?hs)) * roundingMargin \<le> px (last (cur # pts))"
        using W unfolding f(1) pc by blast
      have C: "(\<exists>l\<in>set (map seg_length ?hs). 1/2 \<le> l)
                \<longrightarrow> real_of_int cx + 1/2 \<le> px (last (cur # pts))"
        using W unfolding f(1) by blast
      have "real_of_int cx + 1/2 \<le> px (last (cur # pts))"
        using h(2) B C by (rule longEnough_reach)
      with A pc(1) cx(2) show ?thesis by (rule open_along_x64)
    next
      case v
      note f = fallback_lengths64 [OF nonneg v(1)]
      have cle: "real_of_int cy \<le> py cur" by (simp add: pc)
      note W = walk64_y [OF w lv f(2) dy cle cy(2)]
      have A: "\<forall>p\<in>set pts. py cur \<le> py p" using W by blast
      have B: "real_of_int cy + 1/2 \<le> py (last (cur # pts))
          \<or> real_of_int cy + sum_list (map seg_length ?vs)
               - real (length (map seg_length ?vs)) * roundingMargin \<le> py (last (cur # pts))"
        using W unfolding f(1) pc by blast
      have C: "(\<exists>l\<in>set (map seg_length ?vs). 1/2 \<le> l)
                \<longrightarrow> real_of_int cy + 1/2 \<le> py (last (cur # pts))"
        using W unfolding f(1) by blast
      have "real_of_int cy + 1/2 \<le> py (last (cur # pts))"
        using v(2) B C by (rule longEnough_reach)
      with A pc(2) cy(2) show ?thesis by (rule open_along_y64)
    qed
  qed
  have ne: "segments \<noteq> []"
  proof
    assume "segments = []"
    then have "\<not> longEnough ?hs" "\<not> longEnough ?vs"
      by (simp_all add: longEnough_def)
    then show False using un by blast
  qed
  have "handleBulkWallInput64 mousePos segments
          = NewWalls (map (\<lambda>i. (normalizePoints64 (cur # pts) ! (i - 1), normalizePoints64 (cur # pts) ! i))
                          [1..<length (normalizePoints64 (cur # pts))])"
    using far ne bp by (simp add: handleBulkWallInput64_def Let_def)
  then show ?thesis using bp len far by auto
qed

text \<open>The single segment of 5 ft, from any mouse position of moderate size.\<close>

lemma searchFails64_five: "searchFails64 [\<lparr>seg_length = 5, orientation = H\<rparr>]"
  using fl_hundredth(2)
  by (simp add: searchFails64_def signedSum64_def dir_def fadd_def fmul_def upt_rec)

lemma solveDirections64_Nil: "solveDirections64 [] = []"
  using fl_hundredth(1)
  by (simp add: solveDirections64_def searchFrom64.simps signedSum64_def)

lemma sqrt_25: "sqrt 25 = 5"
  by (rule real_sqrt_unique) simp_all

lemma five_feet:
  assumes mx: "\<bar>px mousePos\<bar> \<le> 2 ^ 31" and my: "\<bar>py mousePos\<bar> \<le> 2 ^ 31"
  shows "handleBulkWallInput64 mousePos [\<lparr>seg_length = 5, orientation = H\<rparr>]
           = NewWalls [(\<lparr>px = 10, py = 10\<rparr>, \<lparr>px = 15, py = 10\<rparr>)]"
proof -
  obtain cx where cx: "snapToGrid64 (px mousePos) = real_of_int cx" "\<bar>cx\<bar> \<le> 2 ^ 31"
    using mx by (rule snapToGrid64_int)
  obtain cy where cy: "snapToGrid64 (py mousePos) = real_of_int cy" "\<bar>cy\<bar> \<le> 2 ^ 31"
    using my by (rule snapToGrid64_int)
  define X Y where "X = real_of_int cx" and "Y = real_of_int cy"
  have "\<bar>cx + 5\<bar> < 2 ^ 53" using cx(2) by simp
  then have "fl (real_of_int (cx + 5)) = real_of_int (cx + 5)" by (rule fl_int)
  then have step: "fadd X 5 = X + 5" by (simp add: fadd_def X_def)
  have sd: "solveDirections64 [\<lparr>seg_length = 5, orientation = H\<rparr>] = [5]"
    using solveDirections64_fails [OF searchFails64_five] by simp
  have bp: "bulkPath64 mousePos [\<lparr>seg_length = 5, orientation = H\<rparr>]
            = Some [\<lparr>px = X, py = Y\<rparr>, \<lparr>px = X + 5, py = Y\<rparr>]"
    by (simp add: bulkPath64_def Let_def cx(1) cy(1) sd solveDirections64_Nil step X_def [symmetric] Y_def [symmetric])
  have ox: "fsub 10 X = 10 - X" unfolding X_def by (rule offset_exact(1) [OF cx(2)])
  have oy: "fsub 10 Y = 10 - Y" unfolding Y_def by (rule offset_exact(1) [OF cy(2)])
  have x0: "snapToGrid64 (fadd X (10 - X)) = 10" unfolding X_def by (rule offset_exact(2) [OF cx(2)])
  have y0: "snapToGrid64 (fadd Y (10 - Y)) = 10" unfolding Y_def by (rule offset_exact(2) [OF cy(2)])
  have "fadd (X + 5) (10 - X) = fl 15" by (simp add: fadd_def)
  then have x1: "snapToGrid64 (fadd (X + 5) (10 - X)) = 15"
    using snapToGrid64_of_int [of 15] by simp
  have mn: "min_list [X, X + 5] = X" "min_list [Y, Y] = Y" by simp_all
  have np: "normalizePoints64 [\<lparr>px = X, py = Y\<rparr>, \<lparr>px = X + 5, py = Y\<rparr>]
            = [\<lparr>px = 10, py = 10\<rparr>, \<lparr>px = 15, py = 10\<rparr>]"
    unfolding normalizePoints64_def Let_def by (simp add: ox oy x0 y0 x1 del: min_list.simps add: mn)
  have d: "distToStart64 [\<lparr>px = 10, py = 10\<rparr>, \<lparr>px = 15, py = 10\<rparr>] = 5"
    by (simp add: distToStart64_def fsub_def fadd_def sqrt_25)
  show ?thesis
    by (simp add: handleBulkWallInput64_def bp np d Let_def)
qed

lemma fl_eighths:
  "fl (1 / 4) = 1 / 4" "fl (- (1 / 4)) = - (1 / 4)"
  "fl (3 / 8) = 3 / 8" "fl (- (3 / 8)) = - (3 / 8)"
  "fl (1 / 8) = 1 / 8" "fl (- (1 / 8)) = - (1 / 8)"
  "fl (5 / 8) = 5 / 8" "fl (- (5 / 8)) = - (5 / 8)"
  "fl (41 / 4) = 41 / 4" "fl (85 / 8) = 85 / 8"
  using fl_dyadic [of 1 2] fl_dyadic [of "- 1" 2] fl_dyadic [of 3 3] fl_dyadic [of "- 3" 3]
    fl_dyadic [of 1 3] fl_dyadic [of "- 1" 3] fl_dyadic [of 5 3] fl_dyadic [of "- 5" 3]
    fl_dyadic [of 41 2] fl_dyadic [of 85 3]
  by simp_all

lemma quarter_three_eighths_fail:
  "searchFails64 [\<lparr>seg_length = 1/4, orientation = H\<rparr>, \<lparr>seg_length = 3/8, orientation = H\<rparr>]"
  using fl_hundredth(2)
  by (simp add: searchFails64_def signedSum64_def dir_def fadd_def fmul_def upt_rec fl_eighths)

lemma two_two_solved:
  "solveDirections64 [\<lparr>seg_length = 2, orientation = V\<rparr>, \<lparr>seg_length = 2, orientation = V\<rparr>] = [2, - 2]"
  using fl_hundredth
  by (simp add: solveDirections64_def searchFrom64.simps signedSum64_def dirs_def dir_def
        fadd_def fmul_def upt_rec)

lemma snapToGrid64_values:
  "snapToGrid64 0 = 0" "snapToGrid64 10 = 10" "snapToGrid64 12 = 12"
  "snapToGrid64 (41 / 4) = 10" "snapToGrid64 (85 / 8) = 11"
  by (simp_all add: snapToGrid64_def fdiv_def fmul_def GRID_SIZE_def fl_eighths round_def)

text \<open>
  Claim C5, as amended.  In binary64 arithmetic, let all segment lengths be non-negative
  and let the mouse position be at most 2^31 ft from the origin along each axis.
  Whenever the search finds no zero-sum sign assignment for a subsequence (it is
  exhausted, or skipped for more than 12 segments, and every segment keeps a positive
  sign) and that subsequence holds a segment of at least 0.5 ft, or its lengths add up to
  at least 0.5 ft plus 2^-20 ft per segment, the normalised path does not close (its last
  point is at least 1 ft from its first) and is emitted as temporary walls, one per
  segment, not as a room.  In particular the search is exhausted for \<open>[{5,H}]\<close>,
  which yields the single wall from (10,10) to (15,10): an open 2-point polyline.
  Lengths whose sums leave the binary64 range are outside the model.
\<close>

theorem fallback_stays_open64:
  "((\<forall>s\<in>set segments. 0 \<le> seg_length s)
     \<and> \<bar>px mousePos\<bar> \<le> 2 ^ 31 \<and> \<bar>py mousePos\<bar> \<le> 2 ^ 31
     \<and> ((searchFails64 (filter (\<lambda>s. orientation s = H) segments)
          \<and> longEnough (filter (\<lambda>s. orientation s = H) segments))
        \<or> (searchFails64 (filter (\<lambda>s. orientation s = V) segments)
          \<and> longEnough (filter (\<lambda>s. orientation s = V) segments)))
    \<longrightarrow> (\<exists>pts. bulkPath64 mousePos segments = Some pts
           \<and> length pts = length segments + 1
           \<and> 1 \<le> distToStart64 (normalizePoints64 pts)
           \<and> handleBulkWallInput64 mousePos segments
               = NewWalls (map (\<lambda>i. (normalizePoints64 pts ! (i - 1), normalizePoints64 pts ! i))
                               [1..<length (normalizePoints64 pts)])))
   \<and> searchFails64 [\<lparr>seg_length = 5, orientation = H\<rparr>]
   \<and> (\<bar>px mousePos\<bar> \<le> 2 ^ 31 \<and> \<bar>py mousePos\<bar> \<le> 2 ^ 31
      \<longrightarrow> handleBulkWallInput64 mousePos [\<lparr>seg_length = 5, orientation = H\<rparr>]
            = NewWalls [(\<lparr>px = 10, py = 10\<rparr>, \<lparr>px = 15, py = 10\<rparr>)])"
proof (intro conjI impI)
  assume "(\<forall>s\<in>set segments. 0 \<le> seg_length s)
     \<and> \<bar>px mousePos\<bar> \<le> 2 ^ 31 \<and> \<bar>py mousePos\<bar> \<le> 2 ^ 31
     \<and> ((searchFails64 (filter (\<lambda>s. orientation s = H) segments)
          \<and> longEnough (filter (\<lambda>s. orientation s = H) segments))
        \<or> (searchFails64 (filter (\<lambda>s. orientation s = V) segments)
          \<and> longEnough (filter (\<lambda>s. orientation s = V) segments)))"
  then show "\<exists>pts. bulkPath64 mousePos segments = Some pts
           \<and> length pts = length segments + 1
           \<and> 1 \<le> distToStart64 (normalizePoints64 pts)
           \<and> handleBulkWallInput64 mousePos segments
               = NewWalls (map (\<lambda>i. (normalizePoints64 pts ! (i - 1), normalizePoints64 pts ! i))
                               [1..<length (normalizePoints64 pts)])"
    by (intro unsolved_open) simp_all
next
  show "searchFails64 [\<lparr>seg_length = 5, orientation = H\<rparr>]" by (rule searchFails64_five)
next
  assume "\<bar>px mousePos\<bar> \<le> 2 ^ 31 \<and> \<bar>py mousePos\<bar> \<le> 2 ^ 31"
  then show "handleBulkWallInput64 mousePos [\<lparr>seg_length = 5, orientation = H\<rparr>]
            = NewWalls [(\<lparr>px = 10, py = 10\<rparr>, \<lparr>px = 15, py = 10\<rparr>)]"
    by (intro five_feet) simp_all
qed

theorem fallback_stays_open64_witness:
  "list_all (\<lambda>s. 0 \<le> seg_length s)
       [\<lparr>seg_length = 1/4, orientation = H\<rparr>, \<lparr>seg_length = 2, orientation = V\<rparr>,
        \<lparr>seg_length = 3/8, orientation = H\<rparr>, \<lparr>seg_length = 2, orientation = V\<rparr>]
   \<and> \<bar>px \<lparr>px = 0, py = 0\<rparr>\<bar> \<le> 2 ^ 31 \<and> \<bar>py \<lparr>px = 0, py = 0\<rparr>\<bar> \<le> 2 ^ 31
   \<and> searchFails64 (filter (\<lambda>s. orientation s = H)
         [\<lparr>seg_length = 1/4, orientation = H\<rparr>, \<lparr>seg_length = 2, orientation = V\<rparr>,
          \<lparr>seg_length = 3/8, orientation = H\<rparr>, \<lparr>seg_length = 2, orientation = V\<rparr>])
   \<and> longEnough (filter (\<lambda>s. orientation s = H)
         [\<lparr>seg_length = 1/4, orientation = H\<rparr>, \<lparr>seg_length = 2, orientation = V\<rparr>,
          \<lparr>seg_length = 3/8, orientation = H\<rparr>, \<lparr>seg_length = 2, orientation = V\<rparr>])
   \<and> handleBulkWallInput64 \<lparr>px = 0, py = 0\<rparr>
         [\<lparr>seg_length = 1/4, orientation = H\<rparr>, \<lparr>seg_length = 2, orientation = V\<rparr>,
          \<lparr>seg_length = 3/8, orientation = H\<rparr>, \<lparr>seg_length = 2, orientation = V\<rparr>]
       = NewWalls [(\<lparr>px = 10, py = 10\<rparr>, \<lparr>px = 10, py = 10\<rparr>),
                   (\<lparr>px = 10, py = 10\<rparr>, \<lparr>px = 10, py = 12\<rparr>),
                   (\<lparr>px = 10, py = 12\<rparr>, \<lparr>px = 11, py = 12\<rparr>),
                   (\<lparr>px = 11, py = 12\<rparr>, \<lparr>px = 11, py = 10\<rparr>)]"
proof -
  have f: "searchFails64 (filter (\<lambda>s. orientation s = H)
         [\<lparr>seg_length = 1/4, orientation = H\<rparr>, \<lparr>seg_length = 2, orientation = V\<rparr>,
          \<lparr>seg_length = 3/8, orientation = H\<rparr>, \<lparr>seg_length = 2, orientation = V\<rparr>])"
    by (simp add: quarter_three_eighths_fail)
  have l: "longEnough (filter (\<lambda>s. orientation s = H)
         [\<lparr>seg_length = 1/4, orientation = H\<rparr>, \<lparr>seg_length = 2, orientation = V\<rparr>,
          \<lparr>seg_length = 3/8, orientation = H\<rparr>, \<lparr>seg_length = 2, orientation = V\<rparr>])"
    by (simp add: longEnough_def roundingMargin_def)
  have bp: "bulkPath64 \<lparr>px = 0, py = 0\<rparr>
         [\<lparr>seg_length = 1/4, orientation = H\<rparr>, \<lparr>seg_length = 2, orientation = V\<rparr>,
          \<lparr>seg_length = 3/8, orientation = H\<rparr>, \<lparr>seg_length = 2, orientation = V\<rparr>]
        = Some [\<lparr>px = 0, py = 0\<rparr>, \<lparr>px = 1/4, py = 0\<rparr>, \<lparr>px = 1/4, py = 2\<rparr>,
                \<lparr>px = 5/8, py = 2\<rparr>, \<lparr>px = 5/8, py = 0\<rparr>]"
    by (simp add: bulkPath64_def Let_def snapToGrid64_values two_two_solved
          solveDirections64_fails [OF quarter_three_eighths_fail] fadd_def fl_eighths)
  have np: "normalizePoints64 [\<lparr>px = 0, py = 0\<rparr>, \<lparr>px = 1/4, py = 0\<rparr>, \<lparr>px = 1/4, py = 2\<rparr>,
                \<lparr>px = 5/8, py = 2\<rparr>, \<lparr>px = 5/8, py = 0\<rparr>]
        = [\<lparr>px = 10, py = 10\<rparr>, \<lparr>px = 10, py = 10\<rparr>, \<lparr>px = 10, py = 12\<rparr>,
           \<lparr>px = 11, py = 12\<rparr>, \<lparr>px = 11, py = 10\<rparr>]"
    by (simp add: normalizePoints64_def Let_def fsub_def fadd_def fl_eighths snapToGrid64_values)
  have d: "distToStart64 [\<lparr>px = 10, py = 10\<rparr>, \<lparr>px = 10, py = 10\<rparr>, \<lparr>px = 10, py = 12\<rparr>,
           \<lparr>px = 11, py = 12\<rparr>, \<lparr>px = 11, py = 10\<rparr>] = 1"
    by (simp add: distToStart64_def fsub_def fadd_def)
  have h: "handleBulkWallInput64 \<lparr>px = 0, py = 0\<rparr>
         [\<lparr>seg_length = 1/4, orientation = H\<rparr>, \<lparr>seg_length = 2, orientation = V\<rparr>,
          \<lparr>seg_length = 3/8, orientation = H\<rparr>, \<lparr>seg_length = 2, orientation = V\<rparr>]
       = NewWalls [(\<lparr>px = 10, py = 10\<rparr>, \<lparr>px = 10, py = 10\<rparr>),
                   (\<lparr>px = 10, py = 10\<rparr>, \<lparr>px = 10, py = 12\<rparr>),
                   (\<lparr>px = 10, py = 12\<rparr>, \<lparr>px = 11, py = 12\<rparr>),
                   (\<lparr>px = 11, py = 12\<rparr>, \<lparr>px = 11, py = 10\<rparr>)]"
    by (simp add: handleBulkWallInput64_def bp np d Let_def upt_rec)
  show ?thesis
    using f l h
      fallback_stays_open64
        [of "[\<lparr>seg_length = 1/4, orientation = H\<rparr>, \<lparr>seg_length = 2, orientation = V\<rparr>,
              \<lparr>seg_length = 3/8, orientation = H\<rparr>, \<lparr>seg_length = 2, orientation = V\<rparr>]"
            "\<lparr>px = 0, py = 0\<rparr>"]
    by simp
qed

text \<open>
  The claim as stated fails for a short unsolved subsequence.  The single segment
  \<open>{0.25,H}\<close> (3 inches) has no zero-sum assignment, but grid snapping moves its end
  point onto its start point: the path closes and a one-point room is emitted.
\<close>

theorem short_fallback_closes64:
  "searchFails64 [\<lparr>seg_length = 1/4, orientation = H\<rparr>]
   \<and> map_option (\<lambda>pts. distToStart64 (normalizePoints64 pts))
        (bulkPath64 \<lparr>px = 0, py = 0\<rparr> [\<lparr>seg_length = 1/4, orientation = H\<rparr>]) = Some 0
   \<and> handleBulkWallInput64 \<lparr>px = 0, py = 0\<rparr> [\<lparr>seg_length = 1/4, orientation = H\<rparr>]
       = NewRoom [\<lparr>px = 10, py = 10\<rparr>]"
proof -
  have f: "searchFails64 [\<lparr>seg_length = 1/4, orientation = H\<rparr>]"
    using fl_hundredth(2)
    by (simp add: searchFails64_def signedSum64_def dir_def fadd_def fmul_def upt_rec fl_eighths)
  have bp: "bulkPath64 \<lparr>px = 0, py = 0\<rparr> [\<lparr>seg_length = 1/4, orientation = H\<rparr>]
        = Some [\<lparr>px = 0, py = 0\<rparr>, \<lparr>px = 1/4, py = 0\<rparr>]"
    by (simp add: bulkPath64_def Let_def snapToGrid64_values solveDirections64_Nil
          solveDirections64_fails [OF f] fadd_def fl_eighths)
  have np: "normalizePoints64 [\<lparr>px = 0, py = 0\<rparr>, \<lparr>px = 1/4, py = 0\<rparr>]
        = [\<lparr>px = 10, py = 10\<rparr>, \<lparr>px = 10, py = 10\<rparr>]"
    by (simp add: normalizePoints64_def Let_def fsub_def fadd_def fl_eighths snapToGrid64_values)
  have d: "distToStart64 [\<lparr>px = 10, py = 10\<rparr>, \<lparr>px = 10, py = 10\<rparr>] = 0"
    by (simp add: distToStart64_def fsub_def fadd_def)
  show ?thesis
    by (simp add: f handleBulkWallInput64_def bp np d Let_def)
qed

end
